theory Spec2Isabelle
  imports Main "HOL-Library.AList" "HOL-Library.Sublist" "HOL-Library.Word"
begin

section \<open>Shared types (packages/shared/src/types.ts)\<close>

datatype JobStatus = Queued | Claimed | Building | Success | Error | Cancelled

datatype Platform = Ios | Android

text \<open>
  The interface \<^verbatim>\<open>Job\<close>. Optional fields are options; the timestamps are the integer
  milliseconds that \<^verbatim>\<open>Date.now()\<close> returns. The field \<^verbatim>\<open>id\<close> is called \<open>id_job\<close>,
  since \<open>id\<close> is the identity function of HOL.
\<close>

record Job =
  id_job :: string
  status :: JobStatus
  platform :: Platform
  profile :: string
  flags :: "string list"
  submittedBy :: string
  claimedBy :: "string option"
  createdAt :: int
  updatedAt :: int
  error :: "string option"
  exitCode :: "int option"
  tarballFilename :: "string option"
  artifactFilename :: "string option"

text \<open>The table \<^verbatim>\<open>VALID_TRANSITIONS\<close>, one list of successors per status.\<close>

fun VALID_TRANSITIONS :: "JobStatus \<Rightarrow> JobStatus list" where
  "VALID_TRANSITIONS Queued = [Claimed, Cancelled]"
| "VALID_TRANSITIONS Claimed = [Building, Cancelled, Error]"
| "VALID_TRANSITIONS Building = [Success, Error, Cancelled]"
| "VALID_TRANSITIONS Success = []"
| "VALID_TRANSITIONS Error = []"
| "VALID_TRANSITIONS Cancelled = []"

text \<open>How a status is printed inside a template string.\<close>

fun statusName :: "JobStatus \<Rightarrow> string" where
  "statusName Queued = ''queued''"
| "statusName Claimed = ''claimed''"
| "statusName Building = ''building''"
| "statusName Success = ''success''"
| "statusName Error = ''error''"
| "statusName Cancelled = ''cancelled''"

section \<open>The job queue (packages/server/src/lib/queue.ts)\<close>

text \<open>
  The store \<^verbatim>\<open>jobs\<close> is a JavaScript \<^verbatim>\<open>Map\<close>: it iterates in insertion order, and
  \<^verbatim>\<open>set\<close> on a key that is present replaces the value where it stands. An association
  list with \<open>map_of\<close> for \<^verbatim>\<open>get\<close> and \<open>AList.update\<close> for \<^verbatim>\<open>set\<close> behaves the same. The
  job objects are shared by reference with the map, so a mutation of a job found under a
  key is an update of the entry of that key.
\<close>

type_synonym jobs = "(string \<times> Job) list"

record CreateJobParams =
  platform_p :: Platform
  profile_p :: string
  flags_p :: "string list option"
  submittedBy_p :: string
  tarballFilename_p :: "string option"

text \<open>
  \<^verbatim>\<open>createJob\<close>. The two readings of the environment, \<^verbatim>\<open>Date.now()\<close> and
  \<^verbatim>\<open>nanoid(12)\<close>, are arguments.
\<close>

definition createJob :: "int \<Rightarrow> string \<Rightarrow> CreateJobParams \<Rightarrow> jobs \<Rightarrow> Job \<times> jobs" where
  "createJob now nanoid params js =
     (let job = \<lparr> id_job = nanoid, status = Queued, platform = platform_p params,
                  profile = profile_p params,
                  flags = (case flags_p params of None \<Rightarrow> [] | Some fl \<Rightarrow> fl),
                  submittedBy = submittedBy_p params, claimedBy = None,
                  createdAt = now, updatedAt = now, error = None, exitCode = None,
                  tarballFilename = tarballFilename_p params, artifactFilename = None \<rparr>
      in (job, AList.update (id_job job) job js))"

definition getJob :: "string \<Rightarrow> jobs \<Rightarrow> Job option" where
  "getJob i js = map_of js i"

text \<open>
  The loop of \<^verbatim>\<open>claimNextJob\<close> over \<^verbatim>\<open>jobs.values()\<close>, with the variable \<^verbatim>\<open>oldest\<close>
  as an accumulator. The key travels with the job, to say which entry is mutated.
\<close>

fun findOldest :: "Platform \<Rightarrow> (string \<times> Job) list \<Rightarrow> (string \<times> Job) option \<Rightarrow> (string \<times> Job) option" where
  "findOldest p [] oldest = oldest"
| "findOldest p ((k, job) # rest) oldest =
     (if status job \<noteq> Queued \<or> platform job \<noteq> p then findOldest p rest oldest
      else (case oldest of
              None \<Rightarrow> findOldest p rest (Some (k, job))
            | Some (ko, old) \<Rightarrow>
                if createdAt job < createdAt old then findOldest p rest (Some (k, job))
                else findOldest p rest oldest))"

definition claimNextJob :: "int \<Rightarrow> Platform \<Rightarrow> string \<Rightarrow> string \<Rightarrow> jobs \<Rightarrow> Job option \<times> jobs" where
  "claimNextJob now p runnerId runnerHostname js =
     (case findOldest p js None of
        None \<Rightarrow> (None, js)
      | Some (k, oldest) \<Rightarrow>
          (let claimed = oldest\<lparr> status := Claimed, claimedBy := Some runnerId, updatedAt := now \<rparr>
           in (Some claimed, AList.update k claimed js)))"

record UpdateExtra =
  error_x :: "string option"
  exitCode_x :: "int option"
  artifactFilename_x :: "string option"

text \<open>
  The two errors that \<^verbatim>\<open>updateJobStatus\<close> throws, and the message each carries.
\<close>

datatype QueueError = JobNotFound string | InvalidTransition JobStatus JobStatus string

fun message :: "QueueError \<Rightarrow> string" where
  "message (JobNotFound i) = ''Job not found: '' @ i"
| "message (InvalidTransition cur new i) =
     ''Invalid transition: '' @ statusName cur @ '' -> '' @ statusName new @ '' for job '' @ i"

text \<open>The three conditional assignments from \<^verbatim>\<open>extra\<close>; an absent field keeps the old value.\<close>

definition applyExtra :: "UpdateExtra option \<Rightarrow> Job \<Rightarrow> Job" where
  "applyExtra extra job =
     (case extra of
        None \<Rightarrow> job
      | Some x \<Rightarrow>
          (let j1 = (case error_x x of None \<Rightarrow> job | Some e \<Rightarrow> job\<lparr> error := Some e \<rparr>);
               j2 = (case exitCode_x x of None \<Rightarrow> j1 | Some c \<Rightarrow> j1\<lparr> exitCode := Some c \<rparr>)
           in (case artifactFilename_x x of None \<Rightarrow> j2 | Some f \<Rightarrow> j2\<lparr> artifactFilename := Some f \<rparr>)))"

text \<open>
  \<^verbatim>\<open>updateJobStatus\<close>: the outcome (the error thrown, or the job returned) and the store
  afterwards.
\<close>

definition updateJobStatus ::
  "int \<Rightarrow> string \<Rightarrow> JobStatus \<Rightarrow> UpdateExtra option \<Rightarrow> jobs \<Rightarrow> (QueueError + Job) \<times> jobs" where
  "updateJobStatus now i newStatus extra js =
     (case map_of js i of
        None \<Rightarrow> (Inl (JobNotFound i), js)
      | Some job \<Rightarrow>
          if newStatus \<notin> set (VALID_TRANSITIONS (status job))
          then (Inl (InvalidTransition (status job) newStatus i), js)
          else (let job' = applyExtra extra (job\<lparr> status := newStatus, updatedAt := now \<rparr>)
                in (Inr job', AList.update i job' js)))"

text \<open>
  Sequences of queue operations, to speak of every job the three operations can reach from
  the empty store the module starts with. Each operation carries what it reads from the
  environment: the clock, and for \<^verbatim>\<open>createJob\<close> the fresh identifier.
\<close>

datatype QueueOp =
    CreateJob int string CreateJobParams
  | ClaimNextJob int Platform string string
  | UpdateJobStatus int string JobStatus "UpdateExtra option"

fun clockOf :: "QueueOp \<Rightarrow> int" where
  "clockOf (CreateJob now nanoid params) = now"
| "clockOf (ClaimNextJob now p runnerId runnerHostname) = now"
| "clockOf (UpdateJobStatus now i newStatus extra) = now"

fun step :: "QueueOp \<Rightarrow> jobs \<Rightarrow> jobs" where
  "step (CreateJob now nanoid params) js = snd (createJob now nanoid params js)"
| "step (ClaimNextJob now p runnerId runnerHostname) js = snd (claimNextJob now p runnerId runnerHostname js)"
| "step (UpdateJobStatus now i newStatus extra) js = snd (updateJobStatus now i newStatus extra js)"

fun run :: "QueueOp list \<Rightarrow> jobs \<Rightarrow> jobs" where
  "run [] js = js"
| "run (op # ops) js = run ops (step op js)"

section \<open>The event channel registry (packages/server/src/lib/sse.ts)\<close>

text \<open>
  A client's \<^verbatim>\<open>send\<close> either delivers or throws; \<open>send c event data\<close> is \<open>False\<close> when
  it throws. The callback \<^verbatim>\<open>close\<close> is read by \<^verbatim>\<open>closeAllClients\<close> only and is left out.
\<close>

record SSEClient =
  id_client :: string
  send :: "string \<Rightarrow> string \<Rightarrow> bool"

text \<open>\<^verbatim>\<open>channels\<close>: a \<^verbatim>\<open>Map\<close> from channel name to a \<^verbatim>\<open>Map\<close> from client id to client.\<close>

type_synonym channels = "(string \<times> (string \<times> SSEClient) list) list"

definition addClient :: "string \<Rightarrow> SSEClient \<Rightarrow> channels \<Rightarrow> channels" where
  "addClient channel client chans =
     (let clients = (case map_of chans channel of None \<Rightarrow> [] | Some cs \<Rightarrow> cs)
      in AList.update channel (AList.update (id_client client) client clients) chans)"

definition removeClient :: "string \<Rightarrow> string \<Rightarrow> channels \<Rightarrow> channels" where
  "removeClient channel clientId chans =
     (case map_of chans channel of
        None \<Rightarrow> chans
      | Some clients \<Rightarrow>
          (let clients' = AList.delete clientId clients
           in if length clients' = 0 then AList.delete channel chans
              else AList.update channel clients' chans))"

text \<open>
  What a broadcast does to the outside: per client, in the order of the \<^verbatim>\<open>Map\<close>, an event
  written to its stream, or a warning on the console when \<^verbatim>\<open>send\<close> threw.
  \<^verbatim>\<open>JSON.stringify\<close> is an argument; it is \<open>None\<close> where it throws.
\<close>

datatype Delivery = Sent string string string | Warned string string string

datatype SseError = StringifyThrew

definition broadcast ::
  "('d \<Rightarrow> string option) \<Rightarrow> string \<Rightarrow> string \<Rightarrow> 'd \<Rightarrow> channels \<Rightarrow> SseError + Delivery list" where
  "broadcast stringify channel event data chans =
     (case map_of chans channel of
        None \<Rightarrow> Inr []
      | Some clients \<Rightarrow>
          (case stringify data of
             None \<Rightarrow> Inl StringifyThrew
           | Some serialized \<Rightarrow>
               Inr (map (\<lambda>(k, client).
                      if send client event serialized then Sent (id_client client) event serialized
                      else Warned (id_client client) event channel) clients)))"

definition broadcastToJob ::
  "('d \<Rightarrow> string option) \<Rightarrow> string \<Rightarrow> string \<Rightarrow> 'd \<Rightarrow> channels \<Rightarrow> SseError + Delivery list" where
  "broadcastToJob stringify jobId event data chans = broadcast stringify (''job:'' @ jobId) event data chans"

definition getConnectedClients :: "channels \<Rightarrow> nat" where
  "getConnectedClients chans = fold (\<lambda>(k, clients) total. total + length clients) chans 0"

section \<open>The runner registry (packages/server/src/routes/runners.ts)\<close>

text \<open>
  The request body is whatever JSON the runner sent, so every field may be missing.
  \<open>platforms_b\<close> is \<open>None\<close> when the field is missing or is not an array. The handler
  copies \<^verbatim>\<open>body.hostname\<close> into an existing runner as it is, so a runner's hostname may
  be undefined.
\<close>

record Runner =
  id_runner :: string
  hostname :: "string option"
  platforms :: "Platform list"
  lastHeartbeat :: int

record HeartbeatBody =
  runnerId_b :: "string option"
  hostname_b :: "string option"
  platforms_b :: "Platform list option"

type_synonym runnerMap = "(string \<times> Runner) list"

datatype HeartbeatResponse =
    JsonRunner Runner
  | JsonError nat string

text \<open>JavaScript's \<^verbatim>\<open>!s\<close> and \<^verbatim>\<open>s || d\<close> for a string that may be undefined.\<close>

definition falsy :: "string option \<Rightarrow> bool" where
  "falsy s = (case s of None \<Rightarrow> True | Some v \<Rightarrow> v = [])"

definition orElse :: "string option \<Rightarrow> string \<Rightarrow> string" where
  "orElse s d = (case s of None \<Rightarrow> d | Some v \<Rightarrow> if v = [] then d else v)"

definition heartbeat :: "int \<Rightarrow> HeartbeatBody \<Rightarrow> runnerMap \<Rightarrow> HeartbeatResponse \<times> runnerMap" where
  "heartbeat now body rm =
     (case runnerId_b body of
        None \<Rightarrow> (JsonError 400 ''Missing runnerId'', rm)
      | Some rid \<Rightarrow>
          if rid = [] then (JsonError 400 ''Missing runnerId'', rm)
          else (case platforms_b body of
                  None \<Rightarrow> (JsonError 400 ''Missing or empty platforms array'', rm)
                | Some ps \<Rightarrow>
                    if length ps = 0 then (JsonError 400 ''Missing or empty platforms array'', rm)
                    else (case map_of rm rid of
                            Some existing \<Rightarrow>
                              (let r = existing\<lparr> lastHeartbeat := now, hostname := hostname_b body,
                                                 platforms := ps \<rparr>
                               in (JsonRunner r, AList.update rid r rm))
                          | None \<Rightarrow>
                              (let runner = \<lparr> id_runner = rid,
                                              hostname = Some (orElse (hostname_b body) ''unknown''),
                                              platforms = ps, lastHeartbeat = now \<rparr>
                               in (JsonRunner runner, AList.update (id_runner runner) runner rm)))))"

section \<open>Paths of the runtime (node:path, POSIX flavour)\<close>

text \<open>
  The storage layer calls \<^verbatim>\<open>basename\<close>, \<^verbatim>\<open>resolve\<close> and \<^verbatim>\<open>join\<close> of the Node.js runtime.
  They are not code of the repository; the definitions below follow the POSIX
  implementation the server runs on (the image is built from a Linux base). A path is cut
  at every slash, the segments are normalised on a stack (an empty segment and \<^verbatim>\<open>.\<close> are
  dropped, \<^verbatim>\<open>..\<close> removes the segment before it), and the rest is joined again.
\<close>

fun splitFrom :: "string \<Rightarrow> string \<Rightarrow> string list" where
  "splitFrom segment [] = [segment]"
| "splitFrom segment (c # cs) =
     (if c = CHR ''/'' then segment # splitFrom [] cs else splitFrom (segment @ [c]) cs)"

definition splitSlash :: "string \<Rightarrow> string list" where
  "splitSlash path = splitFrom [] path"

fun joinSlash :: "string list \<Rightarrow> string" where
  "joinSlash [] = []"
| "joinSlash [s] = s"
| "joinSlash (s # t # ss) = s @ ''/'' @ joinSlash (t # ss)"

fun normalizeSegs :: "bool \<Rightarrow> string list \<Rightarrow> string list \<Rightarrow> string list" where
  "normalizeSegs allowAboveRoot res [] = res"
| "normalizeSegs allowAboveRoot res (s # ss) =
     (if s = [] \<or> s = ''.'' then normalizeSegs allowAboveRoot res ss
      else if s = ''..'' then
        (if res \<noteq> [] \<and> last res \<noteq> ''..'' then normalizeSegs allowAboveRoot (butlast res) ss
         else if allowAboveRoot then normalizeSegs allowAboveRoot (res @ [''..'']) ss
         else normalizeSegs allowAboveRoot res ss)
      else normalizeSegs allowAboveRoot (res @ [s]) ss)"

definition normalizeString :: "string \<Rightarrow> bool \<Rightarrow> string" where
  "normalizeString path allowAboveRoot = joinSlash (normalizeSegs allowAboveRoot [] (splitSlash path))"

definition isAbsolute :: "string \<Rightarrow> bool" where
  "isAbsolute path = (case path of [] \<Rightarrow> False | c # cs \<Rightarrow> c = CHR ''/'')"

text \<open>
  \<^verbatim>\<open>resolve\<close> reads its arguments from the right, and the working directory after them,
  until the path it builds is absolute.
\<close>

fun resolveLoop :: "string list \<Rightarrow> string \<Rightarrow> string \<times> bool" where
  "resolveLoop [] resolvedPath = (resolvedPath, False)"
| "resolveLoop (path # paths) resolvedPath =
     (if path = [] then resolveLoop paths resolvedPath
      else if isAbsolute path then (path @ ''/'' @ resolvedPath, True)
      else resolveLoop paths (path @ ''/'' @ resolvedPath))"

definition resolve :: "string \<Rightarrow> string list \<Rightarrow> string" where
  "resolve cwd args =
     (case resolveLoop (rev args @ [cwd]) [] of
        (resolvedPath, resolvedAbsolute) \<Rightarrow>
          (let normalized = normalizeString resolvedPath (\<not> resolvedAbsolute)
           in if resolvedAbsolute then ''/'' @ normalized
              else if normalized \<noteq> [] then normalized else ''.''))"

definition normalize :: "string \<Rightarrow> string" where
  "normalize path =
     (if path = [] then ''.''
      else (let trailingSeparator = (last path = CHR ''/'');
                normalized = normalizeString path (\<not> isAbsolute path)
            in if normalized = [] then
                 (if isAbsolute path then ''/'' else if trailingSeparator then ''./'' else ''.'')
               else (if isAbsolute path then ''/'' else []) @ normalized
                    @ (if trailingSeparator then ''/'' else [])))"

definition join :: "string list \<Rightarrow> string" where
  "join args =
     (let parts = filter (\<lambda>a. a \<noteq> []) args
      in if parts = [] then ''.'' else normalize (joinSlash parts))"

text \<open>\<^verbatim>\<open>basename\<close>: trailing slashes are ignored, then what follows the last slash is kept.\<close>

definition basename :: "string \<Rightarrow> string" where
  "basename path =
     rev (takeWhile (\<lambda>c. c \<noteq> CHR ''/'') (dropWhile (\<lambda>c. c = CHR ''/'') (rev path)))"

section \<open>The storage layer (the module lib/storage.js; its source stands in packages/server/src/lib/auth.ts)\<close>

type_synonym byte = "8 word"

definition MAX_TARBALL_BYTES :: nat where
  "MAX_TARBALL_BYTES = 500 * 1024 * 1024"

definition MAX_ARTIFACT_BYTES :: nat where
  "MAX_ARTIFACT_BYTES = 2 * 1024 * 1024 * 1024"

text \<open>
  The file system is the content of each path that holds a file; directories, which
  \<^verbatim>\<open>init\<close> creates, are not part of it. The module's variables and the working directory
  of the process make up the rest of the state. A payload is a \<^verbatim>\<open>Buffer\<close>, or a
  \<^verbatim>\<open>ReadableStream\<close> given by the finite list of chunks it yields. The steps of a write
  happen in the order of the program text: the file is opened, the chunks are appended,
  and on failure the file is removed.
\<close>

type_synonym fileSystem = "string \<Rightarrow> byte list option"

record Storage =
  cwd :: string
  initialised :: bool
  storageDir :: string
  tarballsDir :: string
  artifactsDir :: string
  files :: fileSystem

datatype Data = Buffer "byte list" | Stream "byte list list"

text \<open>
  The errors of the module: \<^verbatim>\<open>Storage not initialised\<close>, \<^verbatim>\<open>Path traversal detected\<close>, and
  \<^verbatim>\<open>Payload exceeds size limit of N bytes\<close> with the limit \<open>N\<close>.
\<close>

datatype StorageError = NotInitialised | PathTraversal | SizeLimit nat

text \<open>The three global replacements of \<^verbatim>\<open>sanitize\<close>, each a single pass from the left.\<close>

definition stripNull :: "string \<Rightarrow> string" where
  "stripNull input = filter (\<lambda>c. c \<noteq> CHR 0x00) input"

definition stripSeparators :: "string \<Rightarrow> string" where
  "stripSeparators clean = filter (\<lambda>c. c \<noteq> CHR ''/'' \<and> c \<noteq> CHR 0x5C) clean"

fun stripDotDot :: "string \<Rightarrow> string" where
  "stripDotDot (a # b # cs) =
     (if a = CHR ''.'' \<and> b = CHR ''.'' then stripDotDot cs else a # stripDotDot (b # cs))"
| "stripDotDot cs = cs"

definition sanitize :: "string \<Rightarrow> string" where
  "sanitize input =
     (let clean = basename (stripDotDot (stripSeparators (stripNull input)))
      in if length clean = 0 then ''file'' else clean)"

definition safePath :: "string \<Rightarrow> string \<Rightarrow> string \<Rightarrow> StorageError + string" where
  "safePath wd parent child =
     (let resolved = resolve wd [parent, child]
      in if \<not> prefix (parent @ ''/'') resolved \<and> resolved \<noteq> parent then Inl PathTraversal
         else Inr resolved)"

text \<open>
  The pipeline of the streaming branch: the limiter counts each chunk before it passes it
  on, and the write stream appends what it receives to the file.
\<close>

fun pipeline :: "string \<Rightarrow> nat \<Rightarrow> nat \<Rightarrow> byte list list \<Rightarrow> fileSystem \<Rightarrow> (StorageError + unit) \<times> fileSystem" where
  "pipeline dest maxBytes written [] fs = (Inr (), fs)"
| "pipeline dest maxBytes written (chunk # chunks) fs =
     (let written' = written + length chunk
      in if written' > maxBytes then (Inl (SizeLimit maxBytes), fs)
         else pipeline dest maxBytes written' chunks
                (fs(dest \<mapsto> (case fs dest of None \<Rightarrow> [] | Some old \<Rightarrow> old) @ chunk)))"

text \<open>
  \<^verbatim>\<open>writeWithLimit\<close>. \<^verbatim>\<open>createWriteStream\<close> opens the file empty; when the pipeline fails,
  \<^verbatim>\<open>rm\<close> removes it.
\<close>

definition writeWithLimit :: "string \<Rightarrow> Data \<Rightarrow> nat \<Rightarrow> fileSystem \<Rightarrow> (StorageError + unit) \<times> fileSystem" where
  "writeWithLimit dest data maxBytes fs =
     (case data of
        Buffer bytes \<Rightarrow>
          if length bytes > maxBytes then (Inl (SizeLimit maxBytes), fs)
          else (Inr (), fs(dest \<mapsto> bytes))
      | Stream chunks \<Rightarrow>
          (case pipeline dest maxBytes 0 chunks (fs(dest \<mapsto> [])) of
             (Inl err, fs') \<Rightarrow> (Inl err, fs'(dest := None))
           | (Inr u, fs') \<Rightarrow> (Inr (), fs')))"

text \<open>\<^verbatim>\<open>init\<close>, with the environment variable \<^verbatim>\<open>STORAGE_DIR\<close> as an argument.\<close>

definition getStorageDir :: "string option \<Rightarrow> string" where
  "getStorageDir STORAGE_DIR = orElse STORAGE_DIR ''/data''"

definition init :: "string option \<Rightarrow> Storage \<Rightarrow> Storage" where
  "init STORAGE_DIR st =
     (let sd = resolve (cwd st) [getStorageDir STORAGE_DIR]
      in st\<lparr> storageDir := sd, tarballsDir := join [sd, ''tarballs''],
              artifactsDir := join [sd, ''artifacts''], initialised := True \<rparr>)"

definition saveTarball :: "string \<Rightarrow> Data \<Rightarrow> Storage \<Rightarrow> (StorageError + string) \<times> Storage" where
  "saveTarball jobId data st =
     (if \<not> initialised st then (Inl NotInitialised, st)
      else (let safeId = sanitize jobId;
                filename = safeId @ ''.tar.gz''
            in case safePath (cwd st) (tarballsDir st) filename of
                 Inl err \<Rightarrow> (Inl err, st)
               | Inr dest \<Rightarrow>
                   (case writeWithLimit dest data MAX_TARBALL_BYTES (files st) of
                      (Inl err, fs') \<Rightarrow> (Inl err, st\<lparr> files := fs' \<rparr>)
                    | (Inr u, fs') \<Rightarrow> (Inr dest, st\<lparr> files := fs' \<rparr>))))"

definition saveArtifact :: "string \<Rightarrow> string \<Rightarrow> Data \<Rightarrow> Storage \<Rightarrow> (StorageError + string) \<times> Storage" where
  "saveArtifact jobId originalFilename data st =
     (if \<not> initialised st then (Inl NotInitialised, st)
      else (let safeId = sanitize jobId;
                safeName = sanitize originalFilename;
                filename = safeId @ ''-'' @ safeName
            in case safePath (cwd st) (artifactsDir st) filename of
                 Inl err \<Rightarrow> (Inl err, st)
               | Inr dest \<Rightarrow>
                   (case writeWithLimit dest data MAX_ARTIFACT_BYTES (files st) of
                      (Inl err, fs') \<Rightarrow> (Inl err, st\<lparr> files := fs' \<rparr>)
                    | (Inr u, fs') \<Rightarrow> (Inr dest, st\<lparr> files := fs' \<rparr>))))"

section \<open>The artifact upload (packages/server/src/routes/jobs.ts)\<close>

text \<open>
  The payload of the event the handler publishes, the errors its \<^verbatim>\<open>catch\<close> can meet, and
  its responses with their HTTP status.
\<close>

datatype ArtifactEvent = JobArtifact string string

datatype Caught = StorageThrew StorageError | QueueThrew QueueError | SseThrew SseError

datatype ArtifactResponse =
    JsonFilename string
  | JobNotFound404
  | CannotUpload400 JobStatus
  | MissingArtifact400
  | FailedToSave400 Caught

fun httpStatus :: "ArtifactResponse \<Rightarrow> nat" where
  "httpStatus (JsonFilename name) = 200"
| "httpStatus JobNotFound404 = 404"
| "httpStatus (CannotUpload400 s) = 400"
| "httpStatus MissingArtifact400 = 400"
| "httpStatus (FailedToSave400 e) = 400"

record Server =
  jobs :: jobs
  storage :: Storage
  channels :: channels

text \<open>
  \<^verbatim>\<open>POST /jobs/:id/artifact\<close>. The uploaded field is \<open>None\<close> when it is missing or is not a
  file, else the file's name and bytes. The result is the response, the events delivered,
  and the server afterwards.
\<close>

definition postArtifact ::
  "int \<Rightarrow> (ArtifactEvent \<Rightarrow> string option) \<Rightarrow> string \<Rightarrow> (string \<times> byte list) option \<Rightarrow> Server
     \<Rightarrow> ArtifactResponse \<times> Delivery list \<times> Server" where
  "postArtifact now stringify jobId artifact srv =
     (case getJob jobId (jobs srv) of
        None \<Rightarrow> (JobNotFound404, [], srv)
      | Some job \<Rightarrow>
          if status job \<noteq> Building \<and> status job \<noteq> Success
          then (CannotUpload400 (status job), [], srv)
          else (case artifact of
                  None \<Rightarrow> (MissingArtifact400, [], srv)
                | Some (name, bytes) \<Rightarrow>
                    (case saveArtifact jobId name (Buffer bytes) (storage srv) of
                       (Inl err, st') \<Rightarrow> (FailedToSave400 (StorageThrew err), [], srv\<lparr> storage := st' \<rparr>)
                     | (Inr dest, st') \<Rightarrow>
                         (case updateJobStatus now jobId (status job)
                                 (Some \<lparr> error_x = None, exitCode_x = None,
                                         artifactFilename_x = Some name \<rparr>) (jobs srv) of
                            (Inl err, js') \<Rightarrow>
                              (FailedToSave400 (QueueThrew err), [], srv\<lparr> jobs := js', storage := st' \<rparr>)
                          | (Inr updated, js') \<Rightarrow>
                              (let js'' = AList.update jobId (updated\<lparr> artifactFilename := Some name \<rparr>) js';
                                   srv' = srv\<lparr> jobs := js'', storage := st' \<rparr>
                               in case broadcastToJob stringify jobId ''job:artifact''
                                         (JobArtifact jobId name) (channels srv) of
                                    Inl err \<Rightarrow> (FailedToSave400 (SseThrew err), [], srv')
                                  | Inr delivered \<Rightarrow> (JsonFilename name, delivered, srv'))))))"

section \<open>Vocabulary of the statements\<close>

text \<open>
  The number of bytes of a payload and its content; and a path segment that names an entry
  of a directory: not empty, not \<^verbatim>\<open>.\<close> or \<^verbatim>\<open>..\<close>, and free of slashes.
\<close>

fun payloadBytes :: "Data \<Rightarrow> nat" where
  "payloadBytes (Buffer bytes) = length bytes"
| "payloadBytes (Stream chunks) = sum_list (map length chunks)"

fun payload :: "Data \<Rightarrow> byte list" where
  "payload (Buffer bytes) = bytes"
| "payload (Stream chunks) = concat chunks"

definition cleanSegment :: "string \<Rightarrow> bool" where
  "cleanSegment s = (s \<noteq> [] \<and> s \<noteq> ''.'' \<and> s \<noteq> ''..'' \<and> CHR ''/'' \<notin> set s)"

section \<open>Example states\<close>

text \<open>Concrete jobs, stores and servers on which the theorems below are instantiated.\<close>

definition exampleJob :: "string \<Rightarrow> JobStatus \<Rightarrow> Platform \<Rightarrow> int \<Rightarrow> Job" where
  "exampleJob i s p t =
     \<lparr> id_job = i, status = s, platform = p, profile = ''development'', flags = [],
       submittedBy = ''dev'', claimedBy = None, createdAt = t, updatedAt = t, error = None,
       exitCode = None, tarballFilename = None, artifactFilename = None \<rparr>"

definition exampleQueue :: jobs where
  "exampleQueue =
     [(''X'', exampleJob ''X'' Queued Android 5),
      (''A'', exampleJob ''A'' Queued Ios 10),
      (''B'', exampleJob ''B'' Queued Ios 20)]"

definition bootStorage :: Storage where
  "bootStorage =
     \<lparr> cwd = ''/app'', initialised = False, storageDir = [], tarballsDir = [],
       artifactsDir = [], files = Map.empty \<rparr>"

definition exampleStorage :: Storage where
  "exampleStorage = (init None bootStorage)\<lparr> files := Map.empty \<rparr>"

definition uploadedStorage :: Storage where
  "uploadedStorage = snd (saveArtifact ''j1'' ''app.ipa'' (Buffer [1, 2, 3]) exampleStorage)"

definition exampleServer :: Server where
  "exampleServer =
     \<lparr> jobs = [(''j1'', exampleJob ''j1'' Building Ios 10)], storage = exampleStorage,
       channels = [] \<rparr>"

definition exampleParams :: CreateJobParams where
  "exampleParams =
     \<lparr> platform_p = Ios, profile_p = ''development'', flags_p = None, submittedBy_p = ''dev'',
       tarballFilename_p = None \<rparr>"

definition exampleOps :: "QueueOp list" where
  "exampleOps =
     [CreateJob 10 ''j1'' exampleParams, CreateJob 10 ''j2'' exampleParams,
      ClaimNextJob 20 Ios ''r1'' ''mac'', UpdateJobStatus 30 ''j1'' Building None,
      UpdateJobStatus 30 ''j2'' Cancelled None]"

definition exampleClient :: SSEClient where
  "exampleClient = \<lparr> id_client = ''c1'', send = (\<lambda>event data. True) \<rparr>"

definition exampleChannels :: channels where
  "exampleChannels = [(''job:j1'', [(''c1'', exampleClient)]), (''platform:ios'', [(''c2'', exampleClient)])]"

definition exampleClaimOps :: "QueueOp list" where
  "exampleClaimOps =
     [CreateJob 10 ''j1'' exampleParams, CreateJob 10 ''j2'' exampleParams,
      ClaimNextJob 20 Ios ''r1'' ''mac'']"

definition exampleLaterOps :: "QueueOp list" where
  "exampleLaterOps =
     [UpdateJobStatus 30 ''j1'' Building None, UpdateJobStatus 30 ''j2'' Cancelled None]"

definition registeredRunners :: runnerMap where
  "registeredRunners =
     snd (heartbeat 100 \<lparr> runnerId_b = Some ''r1'', hostname_b = Some ''mac'',
                          platforms_b = Some [Ios] \<rparr> [])"

section \<open>Lemmas on the store and on the examples\<close>

lemma set_AList_update:
  "x \<in> set (AList.update k v al) \<Longrightarrow> x = (k, v) \<or> x \<in> set al"
  by (induction al) (auto split: if_splits)

lemma status_applyExtra: "status (applyExtra extra job) = status job"
  by (simp add: applyExtra_def Let_def split: option.splits)

lemma VALID_TRANSITIONS_table:
  "newStatus \<in> set (VALID_TRANSITIONS cur) \<longleftrightarrow>
     (cur, newStatus) \<in> {(Queued, Claimed), (Queued, Cancelled),
                          (Claimed, Building), (Claimed, Cancelled), (Claimed, Error),
                          (Building, Success), (Building, Error), (Building, Cancelled)}"
  by (cases cur; cases newStatus; simp)

lemma no_self_transition: "s \<notin> set (VALID_TRANSITIONS s)"
  by (cases s) simp_all

lemma updateJobStatus_self:
  "map_of js i = Some job \<Longrightarrow>
   updateJobStatus now i (status job) extra js
     = (Inl (InvalidTransition (status job) (status job) i), js)"
  by (simp add: updateJobStatus_def no_self_transition)

lemma exampleStorage_dirs:
  "artifactsDir exampleStorage = ''/data/artifacts''"
  "tarballsDir exampleStorage = ''/data/tarballs''"
  "cwd exampleStorage = ''/app''"
  "initialised exampleStorage"
  by code_simp+

lemma exampleStorage_fields:
  "artifactsDir exampleStorage = ''/data/artifacts''"
  "tarballsDir exampleStorage = ''/data/tarballs''"
  "cwd exampleStorage = ''/app''"
  "initialised exampleStorage"
  "files exampleStorage = Map.empty"
  using exampleStorage_dirs by (simp_all add: exampleStorage_def)

lemma bootStorage_absolute: "isAbsolute (cwd bootStorage)"
  by (simp add: bootStorage_def isAbsolute_def)

lemma example_sanitize:
  "sanitize ''j1'' = ''j1''"
  "sanitize ''app.ipa'' = ''app.ipa''"
  "sanitize ''../../etc/passwd'' = ''etcpasswd''"
  by code_simp+

lemma example_resolve:
  "resolve ''/app'' [''/data/artifacts'', ''j1-app.ipa''] = ''/data/artifacts/j1-app.ipa''"
  "resolve ''/app'' [''/data/artifacts'', ''j1-etcpasswd''] = ''/data/artifacts/j1-etcpasswd''"
  by code_simp+

lemma example_safePath:
  "safePath ''/app'' ''/data/artifacts'' ''j1-app.ipa'' = Inr ''/data/artifacts/j1-app.ipa''"
  "safePath ''/app'' ''/data/artifacts'' ''j1-etcpasswd'' = Inr ''/data/artifacts/j1-etcpasswd''"
  by (simp_all add: safePath_def example_resolve)

lemma example_saveArtifact:
  "fst (saveArtifact ''j1'' ''app.ipa'' (Buffer [1, 2, 3]) exampleStorage)
     = Inr ''/data/artifacts/j1-app.ipa''"
  by (simp add: saveArtifact_def exampleStorage_fields example_sanitize example_safePath
      writeWithLimit_def MAX_ARTIFACT_BYTES_def)

section \<open>What sanitize returns\<close>

lemma set_stripDotDot: "set (stripDotDot s) \<subseteq> set s"
  by (induction s rule: stripDotDot.induct) auto

lemma stripDotDot_head:
  "b \<noteq> CHR ''.'' \<Longrightarrow> \<exists>t. stripDotDot (b # cs) = b # t"
  by (cases cs) auto

lemma stripDotDot_no_dotdot:
  "stripDotDot s \<noteq> ps @ CHR ''.'' # CHR ''.'' # ss"
proof (induction s arbitrary: ps rule: stripDotDot.induct)
  case (1 a b cs)
  show ?case
  proof (cases "a = CHR ''.'' \<and> b = CHR ''.''")
    case True
    with "1.IH"(1) show ?thesis by simp
  next
    case False
    show ?thesis
    proof (cases ps)
      case Nil
      show ?thesis
      proof
        assume e: "stripDotDot (a # b # cs) = ps @ CHR ''.'' # CHR ''.'' # ss"
        from False have "stripDotDot (a # b # cs) = a # stripDotDot (b # cs)"
          by auto
        then have "a # stripDotDot (b # cs) = CHR ''.'' # CHR ''.'' # ss"
          using e Nil by (simp only: append_Nil)
        then have a: "a = CHR ''.''" and t: "stripDotDot (b # cs) = CHR ''.'' # ss"
          by (simp_all only: list.inject)
        with False have "b \<noteq> CHR ''.''" by simp
        from stripDotDot_head[OF this, of cs] t \<open>b \<noteq> CHR ''.''\<close> show False by auto
      qed
    next
      case (Cons p ps')
      with False "1.IH"(2)[of ps'] show ?thesis by auto
    qed
  qed
qed (simp_all add: Cons_eq_append_conv)

lemma basename_no_slash: "CHR ''/'' \<notin> set s \<Longrightarrow> basename s = s"
proof -
  assume a: "CHR ''/'' \<notin> set s"
  then have d: "dropWhile (\<lambda>c. c = CHR ''/'') (rev s) = rev s"
    by (cases "rev s") auto
  from a have t: "takeWhile (\<lambda>c. c \<noteq> CHR ''/'') (rev s) = rev s"
    by (intro takeWhile_eq_all_conv[THEN iffD2]) auto
  show ?thesis unfolding basename_def d t by simp
qed

lemma stripped_no_slash: "CHR ''/'' \<notin> set (stripDotDot (stripSeparators (stripNull input)))"
  using set_stripDotDot[of "stripSeparators (stripNull input)"]
  by (auto simp: stripSeparators_def)

lemma sanitize_eq:
  "sanitize input =
     (if stripDotDot (stripSeparators (stripNull input)) = [] then ''file''
      else stripDotDot (stripSeparators (stripNull input)))"
  by (simp add: sanitize_def basename_no_slash[OF stripped_no_slash])

lemma sanitize_nonempty: "sanitize input \<noteq> []"
  by (simp add: sanitize_eq)

lemma sanitize_chars:
  "CHR 0x00 \<notin> set (sanitize input)" "CHR ''/'' \<notin> set (sanitize input)"
  "CHR 0x5C \<notin> set (sanitize input)"
  using set_stripDotDot[of "stripSeparators (stripNull input)"]
  by (auto simp: sanitize_eq stripSeparators_def stripNull_def)

lemma file_no_dotdot: "\<not> sublist ''..'' ''file''"
  by (simp add: sublist_Cons_right prefix_Cons)

lemma sanitize_no_dotdot: "\<not> sublist ''..'' (sanitize input)"
  using file_no_dotdot by (auto simp: sanitize_eq sublist_def stripDotDot_no_dotdot)

lemma basename_sanitize: "basename (sanitize input) = sanitize input"
  by (rule basename_no_slash) (rule sanitize_chars)

section \<open>Resolving a name under a normalised root\<close>

lemma splitFrom_append:
  "splitFrom seg (a @ CHR ''/'' # b) = splitFrom seg a @ splitFrom [] b"
  by (induction a arbitrary: seg) auto

lemma splitFrom_no_slash:
  "CHR ''/'' \<notin> set s \<Longrightarrow> splitFrom seg s = [seg @ s]"
  by (induction s arbitrary: seg) auto

lemma splitFrom_slash_free:
  "CHR ''/'' \<notin> set seg \<Longrightarrow> s \<in> set (splitFrom seg p) \<Longrightarrow> CHR ''/'' \<notin> set s"
proof (induction p arbitrary: seg)
  case Nil
  then show ?case by simp
next
  case (Cons c p)
  show ?case
  proof (cases "c = CHR ''/''")
    case True
    with Cons.prems Cons.IH[of "[]"] show ?thesis by auto
  next
    case False
    with Cons.prems Cons.IH[of "seg @ [c]"] show ?thesis by auto
  qed
qed

lemma normalizeSegs_append:
  "normalizeSegs b res (xs @ ys) = normalizeSegs b (normalizeSegs b res xs) ys"
  by (induction xs arbitrary: res) auto

lemma normalizeSegs_clean_input:
  "\<forall>s \<in> set xs. cleanSegment s \<Longrightarrow> normalizeSegs b res xs = res @ xs"
  by (induction xs arbitrary: res) (auto simp: cleanSegment_def)

lemma normalizeSegs_clean_output:
  "\<forall>s \<in> set res. cleanSegment s \<Longrightarrow> \<forall>s \<in> set xs. CHR ''/'' \<notin> set s \<Longrightarrow>
   \<forall>s \<in> set (normalizeSegs False res xs). cleanSegment s"
proof (induction xs arbitrary: res)
  case Nil
  then show ?case by simp
next
  case (Cons x xs)
  have b: "\<forall>s \<in> set (butlast res). cleanSegment s"
    using Cons.prems(1) by (auto dest: in_set_butlastD)
  have c: "x \<noteq> [] \<Longrightarrow> x \<noteq> ''.'' \<Longrightarrow> x \<noteq> ''..'' \<Longrightarrow> \<forall>s \<in> set (res @ [x]). cleanSegment s"
    using Cons.prems by (auto simp: cleanSegment_def)
  from Cons.prems(2) have xs: "\<forall>s \<in> set xs. CHR ''/'' \<notin> set s" by simp
  show ?case
    using Cons.IH[OF Cons.prems(1) xs] Cons.IH[OF b xs] Cons.IH[OF c xs]
    by auto
qed

text \<open>Normalising the segments of a path, from a stack \<open>res\<close>.\<close>

lemma normalize_path_append:
  "normalizeSegs b res (splitSlash (p @ CHR ''/'' # q))
     = normalizeSegs b (normalizeSegs b res (splitSlash p)) (splitSlash q)"
  by (simp add: splitSlash_def splitFrom_append normalizeSegs_append)

lemma normalize_path_empty: "normalizeSegs b res (splitSlash []) = res"
  by (simp add: splitSlash_def)

lemma normalize_path_slash:
  "normalizeSegs b res (splitSlash (CHR ''/'' # q)) = normalizeSegs b res (splitSlash q)"
  using normalize_path_append[of b res "[]" q] by (simp add: normalize_path_empty)

lemma normalize_path_segment:
  "cleanSegment s \<Longrightarrow> normalizeSegs b res (splitSlash s) = res @ [s]"
  by (simp add: splitSlash_def splitFrom_no_slash cleanSegment_def)

lemma normalize_path_joinSlash:
  "\<forall>s \<in> set segs. cleanSegment s \<Longrightarrow>
   normalizeSegs b res (splitSlash (joinSlash segs)) = res @ segs"
proof (induction segs arbitrary: res rule: joinSlash.induct)
  case 1
  then show ?case by (simp add: normalize_path_empty)
next
  case (2 s)
  then show ?case by (simp add: normalize_path_segment)
next
  case (3 s t ss)
  from "3.prems" have s: "cleanSegment s" and r: "\<forall>x \<in> set (t # ss). cleanSegment x"
    by simp_all
  have "normalizeSegs b res (splitSlash (s @ CHR ''/'' # joinSlash (t # ss)))
          = normalizeSegs b (res @ [s]) (splitSlash (joinSlash (t # ss)))"
    by (simp only: normalize_path_append normalize_path_segment[OF s])
  with "3.IH"[OF r, of "res @ [s]"] show ?case by simp
qed

lemma normalize_path_clean:
  "\<forall>s \<in> set (normalizeSegs False [] (splitSlash p)). cleanSegment s"
  by (rule normalizeSegs_clean_output) (auto simp: splitSlash_def dest: splitFrom_slash_free[rotated])

lemma joinSlash_snoc:
  "segs \<noteq> [] \<Longrightarrow> joinSlash (segs @ [s]) = joinSlash segs @ CHR ''/'' # s"
  by (induction segs rule: joinSlash.induct) auto

lemma resolve_under_root:
  assumes "\<forall>s \<in> set segs. cleanSegment s" and "segs \<noteq> []" and "cleanSegment child"
  shows "resolve wd [CHR ''/'' # joinSlash segs, child] = (CHR ''/'' # joinSlash segs) @ CHR ''/'' # child"
proof -
  from assms(3) have c: "child \<noteq> []" "\<not> isAbsolute child"
    by (cases child; auto simp: cleanSegment_def isAbsolute_def)+
  have loop: "resolveLoop (rev [CHR ''/'' # joinSlash segs, child] @ [wd]) []
      = ((CHR ''/'' # joinSlash segs) @ ''/'' @ child @ ''/'' @ [], True)"
    using c by (simp add: isAbsolute_def)
  have "normalizeSegs False [] (splitSlash (CHR ''/'' # (joinSlash segs @ CHR ''/'' # (child @ CHR ''/'' # []))))
      = segs @ [child]"
    by (simp only: normalize_path_slash normalize_path_append normalize_path_empty
        normalize_path_joinSlash[OF assms(1)] normalize_path_segment[OF assms(3)] append_Nil)
  then have n: "normalizeString ((CHR ''/'' # joinSlash segs) @ ''/'' @ child @ ''/'' @ []) False
      = joinSlash (segs @ [child])"
    by (simp add: normalizeString_def)
  show ?thesis
    unfolding resolve_def loop using n joinSlash_snoc[OF assms(2)] by simp
qed

lemma safePath_under_root:
  assumes "\<forall>s \<in> set segs. cleanSegment s" and "segs \<noteq> []" and "cleanSegment child"
  shows "safePath wd (CHR ''/'' # joinSlash segs) child = Inr ((CHR ''/'' # joinSlash segs) @ CHR ''/'' # child)"
  by (simp add: safePath_def resolve_under_root[OF assms])


section \<open>Writing under a limit\<close>

lemma pipeline_frame:
  "p \<noteq> dest \<Longrightarrow> snd (pipeline dest maxBytes written chunks fs) p = fs p"
  by (induction chunks arbitrary: written fs) (auto simp: Let_def)

lemma pipeline_over:
  "written \<le> maxBytes \<Longrightarrow> maxBytes < written + sum_list (map length chunks) \<Longrightarrow>
   fst (pipeline dest maxBytes written chunks fs) = Inl (SizeLimit maxBytes)"
  by (induction chunks arbitrary: written fs) (auto simp: Let_def add.assoc)

lemma pipeline_within:
  "written + sum_list (map length chunks) \<le> maxBytes \<Longrightarrow> fs dest = Some old \<Longrightarrow>
   pipeline dest maxBytes written chunks fs = (Inr (), fs(dest \<mapsto> old @ concat chunks))"
proof (induction chunks arbitrary: written fs old)
  case Nil
  then show ?case by (simp add: fun_upd_idem)
next
  case (Cons chunk chunks)
  from Cons.prems have le: "written + length chunk + sum_list (map length chunks) \<le> maxBytes"
    by simp
  from Cons.prems
  have "pipeline dest maxBytes written (chunk # chunks) fs
          = pipeline dest maxBytes (written + length chunk) chunks (fs(dest \<mapsto> old @ chunk))"
    by (simp add: Let_def)
  also have "\<dots> = (Inr (), (fs(dest \<mapsto> old @ chunk))(dest \<mapsto> (old @ chunk) @ concat chunks))"
    by (rule Cons.IH[OF le]) simp
  finally show ?case by (simp only: fun_upd_upd append_assoc concat.simps)
qed

lemma pipeline_prefix:
  "written \<le> maxBytes \<Longrightarrow> maxBytes < written + sum_list (map length chunks) \<Longrightarrow>
   pipeline dest maxBytes written (chunks @ rest) fs = pipeline dest maxBytes written chunks fs"
  by (induction chunks arbitrary: written fs) (auto simp: Let_def add.assoc)

lemma pipeline_stops:
  "written + sum_list (map length pre) \<le> maxBytes \<Longrightarrow>
   maxBytes < written + sum_list (map length pre) + length chunk \<Longrightarrow>
   fs dest = Some old \<Longrightarrow>
   pipeline dest maxBytes written (pre @ chunk # rest) fs
     = (Inl (SizeLimit maxBytes), fs(dest \<mapsto> old @ concat pre))"
proof (induction pre arbitrary: written fs old)
  case Nil
  then show ?case by (simp add: Let_def fun_upd_idem)
next
  case (Cons c pre)
  from Cons.prems have le: "written + length c + sum_list (map length pre) \<le> maxBytes"
    and lt: "maxBytes < written + length c + sum_list (map length pre) + length chunk"
    by simp_all
  from Cons.prems
  have "pipeline dest maxBytes written ((c # pre) @ chunk # rest) fs
          = pipeline dest maxBytes (written + length c) (pre @ chunk # rest) (fs(dest \<mapsto> old @ c))"
    by (simp add: Let_def)
  also have "\<dots> = (Inl (SizeLimit maxBytes), (fs(dest \<mapsto> old @ c))(dest \<mapsto> (old @ c) @ concat pre))"
    by (rule Cons.IH[OF le lt]) simp
  finally show ?case by (simp only: fun_upd_upd append_assoc concat.simps)
qed

lemma writeWithLimit_eq:
  "writeWithLimit dest data maxBytes fs =
     (if maxBytes < payloadBytes data
      then (Inl (SizeLimit maxBytes), (case data of Buffer bytes \<Rightarrow> fs | Stream chunks \<Rightarrow> fs(dest := None)))
      else (Inr (), fs(dest \<mapsto> payload data)))"
proof (cases data)
  case (Buffer bytes)
  then show ?thesis by (simp add: writeWithLimit_def)
next
  case (Stream chunks)
  show ?thesis
  proof (cases "maxBytes < payloadBytes data")
    case True
    obtain r fs' where p: "pipeline dest maxBytes 0 chunks (fs(dest \<mapsto> [])) = (r, fs')"
      by (cases "pipeline dest maxBytes 0 chunks (fs(dest \<mapsto> []))")
    from True Stream pipeline_over[of 0 maxBytes chunks dest "fs(dest \<mapsto> [])"] p
    have r: "r = Inl (SizeLimit maxBytes)" by simp
    have "fs'(dest := None) = fs(dest := None)"
    proof
      fix q show "(fs'(dest := None)) q = (fs(dest := None)) q"
        using pipeline_frame[of q dest maxBytes 0 chunks "fs(dest \<mapsto> [])"] p by (cases "q = dest") auto
    qed
    with True Stream p r show ?thesis by (simp add: writeWithLimit_def)
  next
    case False
    with Stream pipeline_within[of 0 chunks maxBytes "fs(dest \<mapsto> [])" dest "[]"]
    show ?thesis by (simp add: writeWithLimit_def)
  qed
qed

lemma writeWithLimit_incremental:
  "maxBytes < sum_list (map length chunks) \<Longrightarrow>
   writeWithLimit dest (Stream (chunks @ rest)) maxBytes fs = writeWithLimit dest (Stream chunks) maxBytes fs"
  by (simp add: writeWithLimit_def pipeline_prefix)

section \<open>The directories after init\<close>

lemma cleanSegment_dirs: "cleanSegment ''tarballs''" "cleanSegment ''artifacts''"
  by (simp_all add: cleanSegment_def)

lemma joinSlash_snoc_nonempty: "s \<noteq> [] \<Longrightarrow> joinSlash (segs @ [s]) \<noteq> []"
  by (induction segs rule: joinSlash.induct) auto

lemma join_under_root:
  assumes "\<forall>s \<in> set segs. cleanSegment s" and "cleanSegment x"
  shows "join [CHR ''/'' # joinSlash segs, x] = CHR ''/'' # joinSlash (segs @ [x])"
proof -
  from assms(2) have x1: "x \<noteq> []" and ns: "CHR ''/'' \<notin> set x"
    by (simp_all add: cleanSegment_def)
  from last_in_set[OF x1] ns have x2: "last x \<noteq> CHR ''/''"
    by metis
  note x = x1 x2
  let ?path = "(CHR ''/'' # joinSlash segs) @ CHR ''/'' # x"
  have n: "normalizeString ?path False = joinSlash (segs @ [x])"
    unfolding normalizeString_def append_Cons
    by (simp only: normalize_path_slash normalize_path_append normalize_path_joinSlash[OF assms(1)]
        normalize_path_segment[OF assms(2)] append_Nil)
  have l: "last ?path \<noteq> CHR ''/''" using x by simp
  have a: "isAbsolute ?path" by (simp add: isAbsolute_def)
  have "normalize ?path = CHR ''/'' # joinSlash (segs @ [x])"
    unfolding normalize_def using n l a joinSlash_snoc_nonempty[OF x(1), of segs]
    by (simp add: Let_def)
  then show ?thesis using x by (simp add: join_def)
qed

lemma resolve_storageDir:
  assumes "isAbsolute wd" and "dir \<noteq> []"
  shows "\<exists>segs. (\<forall>s \<in> set segs. cleanSegment s) \<and> resolve wd [dir] = CHR ''/'' # joinSlash segs"
proof -
  have "\<exists>path. resolveLoop (rev [dir] @ [wd]) [] = (path, True)"
    using assms by (cases "isAbsolute dir") (auto simp: isAbsolute_def split: list.splits)
  then obtain path where "resolveLoop (rev [dir] @ [wd]) [] = (path, True)" ..
  then have "resolve wd [dir] = CHR ''/'' # joinSlash (normalizeSegs False [] (splitSlash path))"
    by (simp add: resolve_def normalizeString_def)
  with normalize_path_clean[of path] show ?thesis by blast
qed

lemma init_dirs:
  assumes "isAbsolute (cwd st0)"
  shows "\<exists>segs. (\<forall>s \<in> set segs. cleanSegment s)
     \<and> tarballsDir (init d st0) = CHR ''/'' # joinSlash (segs @ [''tarballs''])
     \<and> artifactsDir (init d st0) = CHR ''/'' # joinSlash (segs @ [''artifacts''])"
proof -
  have "getStorageDir d \<noteq> []"
    by (simp add: getStorageDir_def orElse_def split: option.splits)
  from resolve_storageDir[OF assms this] obtain segs where
    c: "\<forall>s \<in> set segs. cleanSegment s" and r: "resolve (cwd st0) [getStorageDir d] = CHR ''/'' # joinSlash segs"
    by blast
  have "tarballsDir (init d st0) = CHR ''/'' # joinSlash (segs @ [''tarballs''])"
       "artifactsDir (init d st0) = CHR ''/'' # joinSlash (segs @ [''artifacts''])"
    by (simp_all add: init_def Let_def r join_under_root[OF c] cleanSegment_dirs)
  with c show ?thesis by blast
qed

lemma init_fields:
  "initialised (init d st0)" "cwd (init d st0) = cwd st0" "files (init d st0) = files st0"
  by (simp_all add: init_def Let_def)

lemma long_segment: "3 \<le> length s \<Longrightarrow> s \<noteq> [] \<and> s \<noteq> ''.'' \<and> s \<noteq> ''..''"
  by auto

lemma cleanSegment_filenames:
  "cleanSegment (sanitize a @ ''-'' @ sanitize b)" "cleanSegment (sanitize a @ ''.tar.gz'')"
proof -
  have n: "sanitize a \<noteq> []" "sanitize b \<noteq> []" by (rule sanitize_nonempty)+
  then have "3 \<le> length (sanitize a @ ''-'' @ sanitize b)"
    by (cases "sanitize a"; cases "sanitize b") auto
  from long_segment[OF this] show "cleanSegment (sanitize a @ ''-'' @ sanitize b)"
    using sanitize_chars(2)[of a] sanitize_chars(2)[of b] unfolding cleanSegment_def by simp
  have "3 \<le> length (sanitize a @ ''.tar.gz'')" by simp
  from long_segment[OF this] show "cleanSegment (sanitize a @ ''.tar.gz'')"
    using sanitize_chars(2)[of a] unfolding cleanSegment_def by simp
qed

lemma safePath_initialised:
  assumes "isAbsolute (cwd st0)"
  shows "safePath wd (artifactsDir (init d st0)) (sanitize a @ ''-'' @ sanitize b)
           = Inr (artifactsDir (init d st0) @ ''/'' @ sanitize a @ ''-'' @ sanitize b)"
    and "safePath wd (tarballsDir (init d st0)) (sanitize a @ ''.tar.gz'')
           = Inr (tarballsDir (init d st0) @ ''/'' @ sanitize a @ ''.tar.gz'')"
proof -
  from init_dirs[OF assms, of d] obtain segs where
    c: "\<forall>s \<in> set segs. cleanSegment s"
    and t: "tarballsDir (init d st0) = CHR ''/'' # joinSlash (segs @ [''tarballs''])"
    and a: "artifactsDir (init d st0) = CHR ''/'' # joinSlash (segs @ [''artifacts''])"
    by blast
  have ca: "\<forall>s \<in> set (segs @ [''artifacts'']). cleanSegment s"
    and ct: "\<forall>s \<in> set (segs @ [''tarballs'']). cleanSegment s"
    using c cleanSegment_dirs by auto
  show "safePath wd (artifactsDir (init d st0)) (sanitize a @ ''-'' @ sanitize b)
           = Inr (artifactsDir (init d st0) @ ''/'' @ sanitize a @ ''-'' @ sanitize b)"
    unfolding a using safePath_under_root[OF ca _ cleanSegment_filenames(1), of wd a b] by simp
  show "safePath wd (tarballsDir (init d st0)) (sanitize a @ ''.tar.gz'')
           = Inr (tarballsDir (init d st0) @ ''/'' @ sanitize a @ ''.tar.gz'')"
    unfolding t using safePath_under_root[OF ct _ cleanSegment_filenames(2), of wd a] by simp
qed

lemma saveArtifact_initialised:
  assumes "isAbsolute (cwd st0)"
  shows "saveArtifact jobId name data ((init d st0)\<lparr> files := fs \<rparr>) =
     (if MAX_ARTIFACT_BYTES < payloadBytes data
      then (Inl (SizeLimit MAX_ARTIFACT_BYTES),
            (init d st0)\<lparr> files := (case data of Buffer bytes \<Rightarrow> fs
                | Stream chunks \<Rightarrow> fs(artifactsDir (init d st0) @ ''/'' @ sanitize jobId @ ''-'' @ sanitize name := None)) \<rparr>)
      else (Inr (artifactsDir (init d st0) @ ''/'' @ sanitize jobId @ ''-'' @ sanitize name),
            (init d st0)\<lparr> files := fs(artifactsDir (init d st0) @ ''/'' @ sanitize jobId @ ''-'' @ sanitize name
                                        \<mapsto> payload data) \<rparr>))"
proof -
  have sp: "safePath (cwd ((init d st0)\<lparr> files := fs \<rparr>)) (artifactsDir ((init d st0)\<lparr> files := fs \<rparr>))
              (sanitize jobId @ ''-'' @ sanitize name)
            = Inr (artifactsDir (init d st0) @ ''/'' @ sanitize jobId @ ''-'' @ sanitize name)"
    using safePath_initialised(1)[OF assms, of "cwd st0" d jobId name] by (simp add: init_fields)
  show ?thesis
    unfolding saveArtifact_def Let_def sp by (cases data) (simp_all add: init_fields writeWithLimit_eq)
qed

lemma saveTarball_initialised:
  assumes "isAbsolute (cwd st0)"
  shows "saveTarball jobId data ((init d st0)\<lparr> files := fs \<rparr>) =
     (if MAX_TARBALL_BYTES < payloadBytes data
      then (Inl (SizeLimit MAX_TARBALL_BYTES),
            (init d st0)\<lparr> files := (case data of Buffer bytes \<Rightarrow> fs
                | Stream chunks \<Rightarrow> fs(tarballsDir (init d st0) @ ''/'' @ sanitize jobId @ ''.tar.gz'' := None)) \<rparr>)
      else (Inr (tarballsDir (init d st0) @ ''/'' @ sanitize jobId @ ''.tar.gz''),
            (init d st0)\<lparr> files := fs(tarballsDir (init d st0) @ ''/'' @ sanitize jobId @ ''.tar.gz''
                                        \<mapsto> payload data) \<rparr>))"
proof -
  have sp: "safePath (cwd ((init d st0)\<lparr> files := fs \<rparr>)) (tarballsDir ((init d st0)\<lparr> files := fs \<rparr>))
              (sanitize jobId @ ''.tar.gz'')
            = Inr (tarballsDir (init d st0) @ ''/'' @ sanitize jobId @ ''.tar.gz'')"
    using safePath_initialised(2)[OF assms, of "cwd st0" d jobId] by (simp add: init_fields)
  show ?thesis
    unfolding saveTarball_def Let_def sp by (cases data) (simp_all add: init_fields writeWithLimit_eq)
qed


section \<open>The loop of claimNextJob\<close>

lemma findOldest_Cons:
  "findOldest p ((k0, job) # js) acc =
     findOldest p js
       (if status job \<noteq> Queued \<or> platform job \<noteq> p then acc
        else if acc = None \<or> createdAt job < createdAt (snd (the acc)) then Some (k0, job)
        else acc)"
  by (cases acc) auto

lemma findOldest_None:
  "findOldest p js acc = None \<longleftrightarrow>
     acc = None \<and> (\<forall>(k, j) \<in> set js. \<not> (status j = Queued \<and> platform j = p))"
proof (induction js arbitrary: acc)
  case Nil
  then show ?case by simp
next
  case (Cons e js)
  obtain k0 job where e: "e = (k0, job)" by (cases e)
  show ?case
    unfolding e findOldest_Cons Cons.IH by auto
qed

lemma findOldest_mem:
  "findOldest p js acc = Some (k, j) \<Longrightarrow>
     acc = Some (k, j) \<or> ((k, j) \<in> set js \<and> status j = Queued \<and> platform j = p)"
proof (induction js arbitrary: acc)
  case Nil
  then show ?case by simp
next
  case (Cons e js)
  obtain k0 job where e: "e = (k0, job)" by (cases e)
  from Cons.prems have "findOldest p js
       (if status job \<noteq> Queued \<or> platform job \<noteq> p then acc
        else if acc = None \<or> createdAt job < createdAt (snd (the acc)) then Some (k0, job)
        else acc) = Some (k, j)"
    unfolding e findOldest_Cons .
  from Cons.IH[OF this] show ?case
    unfolding e by (auto split: if_splits)
qed

lemma findOldest_min:
  "findOldest p js acc = Some (k, j) \<Longrightarrow>
     (\<forall>(k', j') \<in> set js. status j' = Queued \<and> platform j' = p \<longrightarrow> createdAt j \<le> createdAt j')
     \<and> (\<forall>ko old. acc = Some (ko, old) \<longrightarrow> createdAt j \<le> createdAt old)"
proof (induction js arbitrary: acc)
  case Nil
  then show ?case by simp
next
  case (Cons e js)
  obtain k0 job where e: "e = (k0, job)" by (cases e)
  from Cons.prems have "findOldest p js
       (if status job \<noteq> Queued \<or> platform job \<noteq> p then acc
        else if acc = None \<or> createdAt job < createdAt (snd (the acc)) then Some (k0, job)
        else acc) = Some (k, j)"
    unfolding e findOldest_Cons .
  from Cons.IH[OF this] show ?case
    unfolding e by (cases acc) (auto split: if_splits)
qed

section \<open>Claiming the oldest queued job\<close>

text \<open>
  Claim C1. A \<^verbatim>\<open>Map\<close> holds each key once. When some job of the store is queued for the
  platform asked for, \<^verbatim>\<open>claimNextJob\<close> picks a job \<open>oldest\<close> of the store that is queued
  for that platform and whose \<open>createdAt\<close> is at most that of every such job; it returns
  this job with status \<open>Claimed\<close>, \<open>claimedBy\<close> the runner and \<open>updatedAt\<close> the current
  time, and the store afterwards differs from the one before in the entry of this job
  only. When no job is queued for the platform, the call returns nothing and the store is
  the one before.
\<close>

theorem claimNextJob_oldest_first:
  assumes "distinct (map fst js)"
  shows "if (\<exists>(k, j) \<in> set js. status j = Queued \<and> platform j = p)
     then \<exists>k oldest.
            map_of js k = Some oldest \<and> status oldest = Queued \<and> platform oldest = p
            \<and> (\<forall>(k', j') \<in> set js. status j' = Queued \<and> platform j' = p
                   \<longrightarrow> createdAt oldest \<le> createdAt j')
            \<and> claimNextJob now p runnerId runnerHostname js
                = (Some (oldest\<lparr> status := Claimed, claimedBy := Some runnerId, updatedAt := now \<rparr>),
                   AList.update k (oldest\<lparr> status := Claimed, claimedBy := Some runnerId,
                                           updatedAt := now \<rparr>) js)
     else claimNextJob now p runnerId runnerHostname js = (None, js)"
proof (cases "findOldest p js None")
  case None
  with findOldest_None[of p js None] show ?thesis
    by (auto simp: claimNextJob_def)
next
  case (Some a)
  obtain k oldest where a: "a = (k, oldest)" by (cases a)
  from Some a have f: "findOldest p js None = Some (k, oldest)" by simp
  from findOldest_mem[OF f]
  have mem: "(k, oldest) \<in> set js" "status oldest = Queued" "platform oldest = p"
    by auto
  with assms have "map_of js k = Some oldest" by simp
  moreover from findOldest_min[OF f]
  have "\<forall>(k', j') \<in> set js. status j' = Queued \<and> platform j' = p
          \<longrightarrow> createdAt oldest \<le> createdAt j'"
    by simp
  moreover have "claimNextJob now p runnerId runnerHostname js
                = (Some (oldest\<lparr> status := Claimed, claimedBy := Some runnerId, updatedAt := now \<rparr>),
                   AList.update k (oldest\<lparr> status := Claimed, claimedBy := Some runnerId,
                                           updatedAt := now \<rparr>) js)"
    using f by (simp add: claimNextJob_def Let_def)
  moreover have "\<exists>(k, j) \<in> set js. status j = Queued \<and> platform j = p"
    using mem by auto
  ultimately show ?thesis using mem by auto
qed

theorem claimNextJob_oldest_first_witness:
  "distinct (map fst exampleQueue)
   \<and> (\<exists>(k, j) \<in> set exampleQueue. status j = Queued \<and> platform j = Ios)
   \<and> (\<exists>k oldest.
          map_of exampleQueue k = Some oldest \<and> status oldest = Queued \<and> platform oldest = Ios
          \<and> (\<forall>(k', j') \<in> set exampleQueue. status j' = Queued \<and> platform j' = Ios
                 \<longrightarrow> createdAt oldest \<le> createdAt j')
          \<and> claimNextJob 30 Ios ''r1'' ''mac'' exampleQueue
              = (Some (oldest\<lparr> status := Claimed, claimedBy := Some ''r1'', updatedAt := 30 \<rparr>),
                 AList.update k (oldest\<lparr> status := Claimed, claimedBy := Some ''r1'',
                                         updatedAt := 30 \<rparr>) exampleQueue))
   \<and> fst (claimNextJob 30 Ios ''r1'' ''mac'' exampleQueue)
       = Some ((exampleJob ''A'' Queued Ios 10)
                 \<lparr> status := Claimed, claimedBy := Some ''r1'', updatedAt := 30 \<rparr>)
   \<and> map_of (snd (claimNextJob 30 Ios ''r1'' ''mac'' exampleQueue)) ''B''
       = Some (exampleJob ''B'' Queued Ios 20)"
proof -
  have d: "distinct (map fst exampleQueue)"
    by (simp add: exampleQueue_def)
  have c: "\<exists>(k, j) \<in> set exampleQueue. status j = Queued \<and> platform j = Ios"
    by (simp add: exampleQueue_def exampleJob_def)
  have r1: "fst (claimNextJob 30 Ios ''r1'' ''mac'' exampleQueue)
       = Some ((exampleJob ''A'' Queued Ios 10)
                 \<lparr> status := Claimed, claimedBy := Some ''r1'', updatedAt := 30 \<rparr>)"
    by (simp add: exampleQueue_def exampleJob_def claimNextJob_def Let_def)
  have r2: "map_of (snd (claimNextJob 30 Ios ''r1'' ''mac'' exampleQueue)) ''B''
       = Some (exampleJob ''B'' Queued Ios 20)"
    by (simp add: exampleQueue_def exampleJob_def claimNextJob_def Let_def)
  from claimNextJob_oldest_first[OF d, where p = Ios and now = 30
      and runnerId = "''r1''" and runnerHostname = "''mac''"] c
  have e: "\<exists>k oldest.
          map_of exampleQueue k = Some oldest \<and> status oldest = Queued \<and> platform oldest = Ios
          \<and> (\<forall>(k', j') \<in> set exampleQueue. status j' = Queued \<and> platform j' = Ios
                 \<longrightarrow> createdAt oldest \<le> createdAt j')
          \<and> claimNextJob 30 Ios ''r1'' ''mac'' exampleQueue
              = (Some (oldest\<lparr> status := Claimed, claimedBy := Some ''r1'', updatedAt := 30 \<rparr>),
                 AList.update k (oldest\<lparr> status := Claimed, claimedBy := Some ''r1'',
                                         updatedAt := 30 \<rparr>) exampleQueue)"
    by (simp only: if_True)
  from d c e r1 r2 show ?thesis
    by (intro conjI)
qed

section \<open>Transition legality\<close>

text \<open>
  Claim C2. For a job of the store and a requested status, \<^verbatim>\<open>updateJobStatus\<close> succeeds
  exactly when the edge from the job's status to the requested one is one of
  queued to claimed or cancelled, claimed to building, cancelled or error, building to
  success, error or cancelled; success, error and cancelled have no successor. On any
  other edge it throws the invalid-transition error, whose message names the current and
  the requested status and differs from the message of the not-found error, and the store,
  hence the job with all its fields, is as before.
\<close>

theorem updateJobStatus_transition_legality:
  assumes "map_of js i = Some job"
  shows "(if (status job, newStatus) \<in> {(Queued, Claimed), (Queued, Cancelled),
                          (Claimed, Building), (Claimed, Cancelled), (Claimed, Error),
                          (Building, Success), (Building, Error), (Building, Cancelled)}
      then \<exists>job'. updateJobStatus now i newStatus extra js = (Inr job', AList.update i job' js)
                  \<and> status job' = newStatus
      else updateJobStatus now i newStatus extra js
             = (Inl (InvalidTransition (status job) newStatus i), js)
           \<and> message (InvalidTransition (status job) newStatus i)
             = ''Invalid transition: '' @ statusName (status job) @ '' -> '' @ statusName newStatus
                 @ '' for job '' @ i
           \<and> message (InvalidTransition (status job) newStatus i) \<noteq> message (JobNotFound i)
           \<and> getJob i (snd (updateJobStatus now i newStatus extra js)) = Some job)
     \<and> VALID_TRANSITIONS Success = [] \<and> VALID_TRANSITIONS Error = []
     \<and> VALID_TRANSITIONS Cancelled = []"
  using assms VALID_TRANSITIONS_table[of newStatus "status job"]
  by (simp add: updateJobStatus_def Let_def getJob_def status_applyExtra del: insert_iff)

theorem updateJobStatus_transition_legality_witness:
  "map_of [(''j1'', exampleJob ''j1'' Success Ios 10)] ''j1'' = Some (exampleJob ''j1'' Success Ios 10)
   \<and> updateJobStatus 20 ''j1'' Building None [(''j1'', exampleJob ''j1'' Success Ios 10)]
       = (Inl (InvalidTransition Success Building ''j1''), [(''j1'', exampleJob ''j1'' Success Ios 10)])
   \<and> message (InvalidTransition Success Building ''j1'')
       = ''Invalid transition: success -> building for job j1''"
  using updateJobStatus_transition_legality[where js = "[(''j1'', exampleJob ''j1'' Success Ios 10)]"
      and i = "''j1''" and job = "exampleJob ''j1'' Success Ios 10" and newStatus = Building
      and now = 20 and extra = None]
  by (simp add: exampleJob_def)

section \<open>Self-transitions and the artifact upload\<close>

lemma saveArtifact_Buffer_stored:
  "saveArtifact jobId name (Buffer bytes) st = (Inr dest, st') \<Longrightarrow> files st' dest = Some bytes"
  by (auto simp: saveArtifact_def Let_def safePath_def writeWithLimit_def
      split: if_splits sum.splits prod.splits)

lemma postArtifact_self_transition:
  assumes "getJob jobId (jobs srv) = Some job"
    and "status job = Building \<or> status job = Success"
    and "postArtifact now stringify jobId (Some (name, bytes)) srv = (response, delivered, srv')"
  shows "httpStatus response = 400 \<and> delivered = [] \<and> jobs srv' = jobs srv
    \<and> (\<forall>dest. fst (saveArtifact jobId name (Buffer bytes) (storage srv)) = Inr dest \<longrightarrow>
           response = FailedToSave400 (QueueThrew (InvalidTransition (status job) (status job) jobId))
           \<and> files (storage srv') dest = Some bytes)"
proof -
  from assms(1) have get: "map_of (jobs srv) jobId = Some job"
    by (simp add: getJob_def)
  note upd = updateJobStatus_self[OF get]
  obtain r st' where sa: "saveArtifact jobId name (Buffer bytes) (storage srv) = (r, st')"
    by (cases "saveArtifact jobId name (Buffer bytes) (storage srv)")
  show ?thesis
  proof (cases r)
    case (Inl err)
    with assms sa upd show ?thesis
      by (auto simp: postArtifact_def)
  next
    case (Inr dest)
    with sa have "files st' dest = Some bytes"
      by (simp add: saveArtifact_Buffer_stored)
    with Inr assms sa upd show ?thesis
      by (auto simp: postArtifact_def)
  qed
qed

text \<open>
  Claim C9. No status \<open>s\<close>, of the six, is among its own successors, so for every job of a
  store \<^verbatim>\<open>updateJobStatus\<close> with the status the job already has throws the
  invalid-transition error and leaves the store as it was. The upload handler makes this
  call for a job that is building or has succeeded, after it has saved the file: its
  response is an error (status 400), no event is published and the queue is as before;
  and whenever \<^verbatim>\<open>saveArtifact\<close> succeeded, the error reported is that invalid transition,
  while the file stands in the storage.
\<close>

theorem artifact_upload_self_transition:
  "s \<notin> set (VALID_TRANSITIONS s)
   \<and> (\<forall>j. map_of js i = Some j \<longrightarrow>
          updateJobStatus now i (status j) extra js
            = (Inl (InvalidTransition (status j) (status j) i), js))
   \<and> (\<forall>job response delivered srv'.
          getJob jobId (jobs srv) = Some job \<and> (status job = Building \<or> status job = Success)
          \<and> postArtifact now stringify jobId (Some (name, bytes)) srv = (response, delivered, srv')
          \<longrightarrow> httpStatus response = 400 \<and> delivered = [] \<and> jobs srv' = jobs srv
              \<and> (\<forall>dest. fst (saveArtifact jobId name (Buffer bytes) (storage srv)) = Inr dest \<longrightarrow>
                     response = FailedToSave400
                                  (QueueThrew (InvalidTransition (status job) (status job) jobId))
                     \<and> files (storage srv') dest = Some bytes))"
proof (intro conjI allI impI)
  show "s \<notin> set (VALID_TRANSITIONS s)" by (rule no_self_transition)
next
  fix j assume "map_of js i = Some j"
  then show "updateJobStatus now i (status j) extra js
            = (Inl (InvalidTransition (status j) (status j) i), js)"
    by (rule updateJobStatus_self)
next
  fix job response delivered srv'
  assume a: "getJob jobId (jobs srv) = Some job \<and> (status job = Building \<or> status job = Success)
          \<and> postArtifact now stringify jobId (Some (name, bytes)) srv = (response, delivered, srv')"
  then have p: "httpStatus response = 400 \<and> delivered = [] \<and> jobs srv' = jobs srv
    \<and> (\<forall>dest. fst (saveArtifact jobId name (Buffer bytes) (storage srv)) = Inr dest \<longrightarrow>
           response = FailedToSave400 (QueueThrew (InvalidTransition (status job) (status job) jobId))
           \<and> files (storage srv') dest = Some bytes)"
    using postArtifact_self_transition[of jobId srv job now stringify name bytes response delivered srv']
    by blast
  from p show "httpStatus response = 400" by blast
  from p show "delivered = []" by blast
  from p show "jobs srv' = jobs srv" by blast
  fix dest assume "fst (saveArtifact jobId name (Buffer bytes) (storage srv)) = Inr dest"
  with p show "response = FailedToSave400 (QueueThrew (InvalidTransition (status job) (status job) jobId))"
    by blast
  from p \<open>fst (saveArtifact jobId name (Buffer bytes) (storage srv)) = Inr dest\<close>
  show "files (storage srv') dest = Some bytes" by blast
qed

theorem artifact_upload_self_transition_witness:
  "map_of exampleQueue ''A'' = Some (exampleJob ''A'' Queued Ios 10)
   \<and> updateJobStatus 20 ''A'' Queued None exampleQueue
       = (Inl (InvalidTransition Queued Queued ''A''), exampleQueue)
   \<and> getJob ''j1'' (jobs exampleServer) = Some (exampleJob ''j1'' Building Ios 10)
   \<and> status (exampleJob ''j1'' Building Ios 10) = Building
   \<and> httpStatus (fst (postArtifact 20 (\<lambda>e. Some []) ''j1'' (Some (''app.ipa'', [1, 2, 3]))
                        exampleServer)) = 400
   \<and> files (storage (snd (snd (postArtifact 20 (\<lambda>e. Some []) ''j1''
                                  (Some (''app.ipa'', [1, 2, 3])) exampleServer))))
        ''/data/artifacts/j1-app.ipa'' = Some [1, 2, 3]"
proof -
  let ?r = "postArtifact 20 (\<lambda>e. Some []) ''j1'' (Some (''app.ipa'', [1, 2, 3])) exampleServer"
  note t = artifact_upload_self_transition[where s = Queued and js = exampleQueue and i = "''A''"
      and now = 20 and extra = None and jobId = "''j1''" and srv = exampleServer
      and stringify = "\<lambda>e. Some []" and name = "''app.ipa''" and bytes = "[1, 2, 3]"]
  have m: "map_of exampleQueue ''A'' = Some (exampleJob ''A'' Queued Ios 10)"
    by (simp add: exampleQueue_def)
  have sq: "status (exampleJob ''A'' Queued Ios 10) = Queued"
    by (simp add: exampleJob_def)
  from t have "\<forall>j. map_of exampleQueue ''A'' = Some j \<longrightarrow>
          updateJobStatus 20 ''A'' (status j) None exampleQueue
            = (Inl (InvalidTransition (status j) (status j) ''A''), exampleQueue)"
    by (elim conjE)
  with m sq have u: "updateJobStatus 20 ''A'' Queued None exampleQueue
       = (Inl (InvalidTransition Queued Queued ''A''), exampleQueue)"
    by metis
  have g: "getJob ''j1'' (jobs exampleServer) = Some (exampleJob ''j1'' Building Ios 10)"
    by (simp add: getJob_def exampleServer_def)
  have s: "status (exampleJob ''j1'' Building Ios 10) = Building"
    by (simp add: exampleJob_def)
  have e: "?r = (fst ?r, fst (snd ?r), snd (snd ?r))"
    by simp
  have sa: "fst (saveArtifact ''j1'' ''app.ipa'' (Buffer [1, 2, 3]) (storage exampleServer))
              = Inr ''/data/artifacts/j1-app.ipa''"
    using example_saveArtifact by (simp add: exampleServer_def)
  from t have h: "\<forall>job response delivered srv'.
          getJob ''j1'' (jobs exampleServer) = Some job \<and> (status job = Building \<or> status job = Success)
          \<and> ?r = (response, delivered, srv')
          \<longrightarrow> httpStatus response = 400 \<and> delivered = [] \<and> jobs srv' = jobs exampleServer
              \<and> (\<forall>dest. fst (saveArtifact ''j1'' ''app.ipa'' (Buffer [1, 2, 3]) (storage exampleServer)) = Inr dest \<longrightarrow>
                     response = FailedToSave400
                                  (QueueThrew (InvalidTransition (status job) (status job) ''j1''))
                     \<and> files (storage srv') dest = Some [1, 2, 3])"
    by (elim conjE)
  from h[rule_format, of "exampleJob ''j1'' Building Ios 10" "fst ?r" "fst (snd ?r)" "snd (snd ?r)"] g s e sa
  have "httpStatus (fst ?r) = 400"
    and "files (storage (snd (snd ?r))) ''/data/artifacts/j1-app.ipa'' = Some [1, 2, 3]"
    by blast+
  with m u g s show ?thesis by (intro conjI)
qed

section \<open>Invariants of the jobs the queue can reach\<close>

lemma claimedBy_applyExtra: "claimedBy (applyExtra extra job) = claimedBy job"
  by (simp add: applyExtra_def Let_def split: option.splits)

lemma createdAt_applyExtra: "createdAt (applyExtra extra job) = createdAt job"
  by (simp add: applyExtra_def Let_def split: option.splits)

lemma updatedAt_applyExtra: "updatedAt (applyExtra extra job) = updatedAt job"
  by (simp add: applyExtra_def Let_def split: option.splits)

lemma Queued_not_successor: "Queued \<notin> set (VALID_TRANSITIONS s)"
  by (cases s) simp_all

text \<open>What an operation leaves in the store: the entries it had, and at most one new one.\<close>

lemma step_entries:
  assumes "(k, j) \<in> set (step op js)"
  shows "(k, j) \<in> set js
    \<or> (\<exists>now nanoid params. op = CreateJob now nanoid params \<and> j = fst (createJob now nanoid params js))
    \<or> (\<exists>now p r h. op = ClaimNextJob now p r h \<and> fst (claimNextJob now p r h js) = Some j)
    \<or> (\<exists>now i s x. op = UpdateJobStatus now i s x \<and> fst (updateJobStatus now i s x js) = Inr j)"
proof (cases op)
  case (CreateJob now nanoid params)
  with assms show ?thesis
    by (auto simp: createJob_def Let_def dest!: set_AList_update)
next
  case (ClaimNextJob now p r h)
  with assms show ?thesis
    by (auto simp: claimNextJob_def Let_def split: option.splits dest!: set_AList_update)
next
  case (UpdateJobStatus now i s x)
  with assms show ?thesis
    by (auto simp: updateJobStatus_def Let_def split: option.splits if_splits dest!: set_AList_update)
qed

lemma claimNextJob_result:
  assumes "fst (claimNextJob now p r h js) = Some j"
  shows "\<exists>k old. (k, old) \<in> set js \<and> status old = Queued \<and> platform old = p
       \<and> j = old\<lparr> status := Claimed, claimedBy := Some r, updatedAt := now \<rparr>"
proof (cases "findOldest p js None")
  case None
  with assms show ?thesis by (simp add: claimNextJob_def)
next
  case (Some a)
  obtain k old where a: "a = (k, old)" by (cases a)
  with Some assms have j: "j = old\<lparr> status := Claimed, claimedBy := Some r, updatedAt := now \<rparr>"
    by (simp add: claimNextJob_def Let_def)
  from findOldest_mem[of p js None k old] Some a
  have "(k, old) \<in> set js \<and> status old = Queued \<and> platform old = p" by simp
  with j show ?thesis by blast
qed

lemma updateJobStatus_result:
  "fst (updateJobStatus now i s x js) = Inr j \<Longrightarrow>
     \<exists>old. (i, old) \<in> set js \<and> s \<in> set (VALID_TRANSITIONS (status old))
       \<and> j = applyExtra x (old\<lparr> status := s, updatedAt := now \<rparr>)"
  by (auto simp: updateJobStatus_def Let_def split: option.splits if_splits dest!: map_of_SomeD)

lemma step_queued_unclaimed:
  assumes "\<forall>(k, j) \<in> set js. status j = Queued \<longrightarrow> claimedBy j = None"
  shows "\<forall>(k, j) \<in> set (step op js). status j = Queued \<longrightarrow> claimedBy j = None"
proof (clarify)
  fix k j assume m: "(k, j) \<in> set (step op js)" and q: "status j = Queued"
  from step_entries[OF m] show "claimedBy j = None"
  proof (elim disjE exE conjE)
    assume "(k, j) \<in> set js" with assms q show ?thesis by auto
  next
    fix now nanoid params assume "j = fst (createJob now nanoid params js)"
    then show ?thesis by (simp add: createJob_def Let_def)
  next
    fix now p r h assume "fst (claimNextJob now p r h js) = Some j"
    from claimNextJob_result[OF this] q show ?thesis by auto
  next
    fix now i s x assume "fst (updateJobStatus now i s x js) = Inr j"
    from updateJobStatus_result[OF this] q show ?thesis
      using Queued_not_successor by (auto simp: status_applyExtra)
  qed
qed

lemma run_queued_unclaimed:
  "\<forall>(k, j) \<in> set js. status j = Queued \<longrightarrow> claimedBy j = None \<Longrightarrow>
   \<forall>(k, j) \<in> set (run ops js). status j = Queued \<longrightarrow> claimedBy j = None"
proof (induction ops arbitrary: js)
  case Nil
  then show ?case by simp
next
  case (Cons op ops)
  from Cons.IH[OF step_queued_unclaimed[OF Cons.prems]] show ?case by simp
qed

lemma step_timestamps:
  assumes "\<forall>(k, j) \<in> set js. createdAt j \<le> updatedAt j \<and> updatedAt j \<le> t"
    and "t \<le> clockOf op"
  shows "\<forall>(k, j) \<in> set (step op js). createdAt j \<le> updatedAt j \<and> updatedAt j \<le> clockOf op"
proof (clarify)
  fix k j assume m: "(k, j) \<in> set (step op js)"
  from step_entries[OF m] show "createdAt j \<le> updatedAt j \<and> updatedAt j \<le> clockOf op"
  proof (elim disjE exE conjE)
    assume "(k, j) \<in> set js" with assms show ?thesis by fastforce
  next
    fix now nanoid params
    assume "op = CreateJob now nanoid params" "j = fst (createJob now nanoid params js)"
    then show ?thesis by (simp add: createJob_def Let_def)
  next
    fix now p r h assume o: "op = ClaimNextJob now p r h" and "fst (claimNextJob now p r h js) = Some j"
    from claimNextJob_result[OF this(2)] obtain k' old where
      "(k', old) \<in> set js" "j = old\<lparr> status := Claimed, claimedBy := Some r, updatedAt := now \<rparr>"
      by blast
    with assms o show ?thesis by fastforce
  next
    fix now i s x assume o: "op = UpdateJobStatus now i s x" and "fst (updateJobStatus now i s x js) = Inr j"
    from updateJobStatus_result[OF this(2)] obtain old where
      "(i, old) \<in> set js" "j = applyExtra x (old\<lparr> status := s, updatedAt := now \<rparr>)"
      by blast
    with assms o show ?thesis
      by (fastforce simp: createdAt_applyExtra updatedAt_applyExtra)
  qed
qed

lemma run_timestamps:
  "\<forall>(k, j) \<in> set js. createdAt j \<le> updatedAt j \<and> updatedAt j \<le> t \<Longrightarrow>
   sorted (map clockOf ops) \<Longrightarrow> \<forall>op \<in> set ops. t \<le> clockOf op \<Longrightarrow>
   \<forall>(k, j) \<in> set (run ops js). createdAt j \<le> updatedAt j"
proof (induction ops arbitrary: js t)
  case Nil
  then show ?case by auto
next
  case (Cons op ops)
  from Cons.prems have t: "t \<le> clockOf op" by simp
  have "\<forall>(k, j) \<in> set (run ops (step op js)). createdAt j \<le> updatedAt j"
  proof (rule Cons.IH)
    show "\<forall>(k, j) \<in> set (step op js). createdAt j \<le> updatedAt j \<and> updatedAt j \<le> clockOf op"
      by (rule step_timestamps[OF Cons.prems(1) t])
    show "sorted (map clockOf ops)" using Cons.prems(2) by simp
    show "\<forall>op' \<in> set ops. clockOf op \<le> clockOf op'" using Cons.prems(2) by simp
  qed
  then show ?case by simp
qed

lemma distinct_step: "distinct (map fst js) \<Longrightarrow> distinct (map fst (step op js))"
  by (cases op)
    (auto simp: createJob_def claimNextJob_def updateJobStatus_def Let_def AList.distinct_update
      split: option.splits)

lemma distinct_run: "distinct (map fst js) \<Longrightarrow> distinct (map fst (run ops js))"
  by (induction ops arbitrary: js) (auto simp: distinct_step)

lemma updateJobStatus_keeps_claimedBy:
  assumes "map_of js i = Some old" and "fst (updateJobStatus now i newStatus extra js) = Inr j"
  shows "claimedBy j = claimedBy old
     \<and> map_of (snd (updateJobStatus now i newStatus extra js)) i = Some j"
  using assms
  by (auto simp: updateJobStatus_def Let_def claimedBy_applyExtra AList.update_conv'
      split: if_splits)

lemma step_keeps_claimedBy:
  assumes d: "distinct (map fst js)"
    and q: "\<forall>(k, j) \<in> set js. status j = Queued \<longrightarrow> claimedBy j = None"
    and m: "map_of js k = Some j" and c: "claimedBy j = Some r"
    and n: "\<forall>t params. op \<noteq> CreateJob t k params"
  shows "\<exists>j'. map_of (step op js) k = Some j' \<and> claimedBy j' = Some r"
proof (cases op)
  case (CreateJob t nanoid params)
  with n have "nanoid \<noteq> k" by auto
  with CreateJob m c show ?thesis
    by (simp add: createJob_def Let_def AList.update_conv')
next
  case (ClaimNextJob t p rid h)
  show ?thesis
  proof (cases "findOldest p js None")
    case None
    with ClaimNextJob m c show ?thesis by (simp add: claimNextJob_def)
  next
    case (Some a)
    obtain k' oldest where a: "a = (k', oldest)" by (cases a)
    from findOldest_mem[of p js None k' oldest] Some a
    have o: "(k', oldest) \<in> set js" "status oldest = Queued" by simp_all
    have "k' \<noteq> k"
    proof
      assume "k' = k"
      with o d have "map_of js k = Some oldest" by simp
      with m have "oldest = j" by simp
      with o q m c show False by (auto dest!: map_of_SomeD)
    qed
    with ClaimNextJob Some a m c show ?thesis
      by (simp add: claimNextJob_def Let_def AList.update_conv')
  qed
next
  case (UpdateJobStatus t i s x)
  show ?thesis
  proof (cases "i = k")
    case True
    with UpdateJobStatus m c show ?thesis
      by (auto simp: updateJobStatus_def Let_def claimedBy_applyExtra AList.update_conv')
  next
    case False
    with UpdateJobStatus m c show ?thesis
      by (auto simp: updateJobStatus_def Let_def AList.update_conv' split: option.splits)
  qed
qed

lemma run_keeps_claimedBy:
  "distinct (map fst js) \<Longrightarrow>
   \<forall>(k, j) \<in> set js. status j = Queued \<longrightarrow> claimedBy j = None \<Longrightarrow>
   map_of js k = Some j \<Longrightarrow> claimedBy j = Some r \<Longrightarrow>
   \<forall>op \<in> set later. \<forall>t params. op \<noteq> CreateJob t k params \<Longrightarrow>
   \<exists>j'. map_of (run later js) k = Some j' \<and> claimedBy j' = Some r"
proof (induction later arbitrary: js j)
  case Nil
  then show ?case by simp
next
  case (Cons op later)
  from Cons.prems(5) have n: "\<forall>t params. op \<noteq> CreateJob t k params"
    and rest: "\<forall>op \<in> set later. \<forall>t params. op \<noteq> CreateJob t k params"
    by simp_all
  from step_keeps_claimedBy[OF Cons.prems(1-4) n]
  obtain j' where j': "map_of (step op js) k = Some j'" "claimedBy j' = Some r" by blast
  from Cons.IH[OF distinct_step[OF Cons.prems(1)] step_queued_unclaimed[OF Cons.prems(2)] j' rest]
  show ?case by simp
qed

text \<open>
  Claim C5 says that for every job reachable by the three operations \<open>claimedBy\<close> is set if
  and only if the status is not queued, also for a job cancelled directly from queued. It
  fails on exactly that job: \<^verbatim>\<open>updateJobStatus\<close> moves a queued job to cancelled and does
  not touch \<open>claimedBy\<close>.
\<close>

theorem claimedBy_iff_past_queued_counterexample:
  "\<not> (\<forall>ops. \<forall>(k, j) \<in> set (run ops []). claimedBy j \<noteq> None \<longleftrightarrow> status j \<noteq> Queued)"
proof
  assume a: "\<forall>ops. \<forall>(k, j) \<in> set (run ops []). claimedBy j \<noteq> None \<longleftrightarrow> status j \<noteq> Queued"
  have "run [CreateJob 10 ''j1'' exampleParams, UpdateJobStatus 20 ''j1'' Cancelled None] []
          = [(''j1'', (exampleJob ''j1'' Cancelled Ios 10)\<lparr> updatedAt := 20 \<rparr>)]"
    by (simp add: createJob_def updateJobStatus_def applyExtra_def exampleParams_def exampleJob_def Let_def)
  with a[rule_format, of "(''j1'', (exampleJob ''j1'' Cancelled Ios 10)\<lparr> updatedAt := 20 \<rparr>)"
      "[CreateJob 10 ''j1'' exampleParams, UpdateJobStatus 20 ''j1'' Cancelled None]"]
  show False by (simp add: exampleJob_def)
qed

text \<open>
  Claim C5, amended. For every job reachable by the three operations, \<open>claimedBy\<close> is set
  only if the status is not queued. \<^verbatim>\<open>claimNextJob\<close> is what sets it: the job it returns
  has \<open>claimedBy\<close> the runner and status claimed. \<^verbatim>\<open>updateJobStatus\<close> neither sets nor
  clears it: the job it returns has the \<open>claimedBy\<close> the job had before. So a job whose
  \<open>claimedBy\<close> is set keeps it through every later sequence of operations, as long as no
  \<^verbatim>\<open>createJob\<close> draws its identifier again; and a job that left queued through
  \<^verbatim>\<open>updateJobStatus\<close> alone, as one cancelled directly from queued, has none.
\<close>

theorem claimedBy_only_past_queued:
  "(\<forall>(k, j) \<in> set (run ops []). claimedBy j \<noteq> None \<longrightarrow> status j \<noteq> Queued)
   \<and> (\<forall>j. fst (claimNextJob now p runnerId runnerHostname (run ops [])) = Some j
          \<longrightarrow> claimedBy j = Some runnerId \<and> status j = Claimed)
   \<and> (\<forall>old j. map_of js i = Some old \<and> fst (updateJobStatus now i newStatus extra js) = Inr j
          \<longrightarrow> claimedBy j = claimedBy old
              \<and> map_of (snd (updateJobStatus now i newStatus extra js)) i = Some j)
   \<and> (\<forall>k j r. map_of (run ops []) k = Some j \<and> claimedBy j = Some r
              \<and> (\<forall>op \<in> set later. \<forall>t params. op \<noteq> CreateJob t k params)
          \<longrightarrow> (\<exists>j'. map_of (run later (run ops [])) k = Some j' \<and> claimedBy j' = Some r))"
proof -
  have q: "\<forall>(k, j) \<in> set (run ops []). status j = Queued \<longrightarrow> claimedBy j = None"
    by (rule run_queued_unclaimed) simp
  have d: "distinct (map fst (run ops []))"
    by (rule distinct_run) simp
  have 1: "\<forall>(k, j) \<in> set (run ops []). claimedBy j \<noteq> None \<longrightarrow> status j \<noteq> Queued"
    using q by auto
  have 2: "\<forall>j. fst (claimNextJob now p runnerId runnerHostname (run ops [])) = Some j
          \<longrightarrow> claimedBy j = Some runnerId \<and> status j = Claimed"
    by (auto dest!: claimNextJob_result)
  have 3: "\<forall>old j. map_of js i = Some old \<and> fst (updateJobStatus now i newStatus extra js) = Inr j
          \<longrightarrow> claimedBy j = claimedBy old
              \<and> map_of (snd (updateJobStatus now i newStatus extra js)) i = Some j"
    using updateJobStatus_keeps_claimedBy[of js i _ now newStatus extra] by blast
  have 4: "\<forall>k j r. map_of (run ops []) k = Some j \<and> claimedBy j = Some r
              \<and> (\<forall>op \<in> set later. \<forall>t params. op \<noteq> CreateJob t k params)
          \<longrightarrow> (\<exists>j'. map_of (run later (run ops [])) k = Some j' \<and> claimedBy j' = Some r)"
    using run_keeps_claimedBy[OF d q] by blast
  from 1 2 3 4 show ?thesis by (intro conjI)
qed

theorem claimedBy_only_past_queued_witness:
  "run exampleOps [] \<noteq> []
   \<and> list_all (\<lambda>(k, j). claimedBy j \<noteq> None \<longrightarrow> status j \<noteq> Queued) (run exampleOps [])
   \<and> map (\<lambda>(k, j). (k, status j, claimedBy j)) (run exampleOps [])
       = [(''j1'', Building, Some ''r1''), (''j2'', Cancelled, None)]
   \<and> map (\<lambda>(k, j). (k, status j, claimedBy j)) (run exampleClaimOps [])
       = [(''j1'', Claimed, Some ''r1''), (''j2'', Queued, None)]
   \<and> list_all (\<lambda>op. \<forall>t params. op \<noteq> CreateJob t ''j1'' params) exampleLaterOps
   \<and> (\<exists>j'. map_of (run exampleLaterOps (run exampleClaimOps [])) ''j1'' = Some j'
             \<and> claimedBy j' = Some ''r1'')"
proof -
  have r: "map (\<lambda>(k, j). (k, status j, claimedBy j)) (run exampleOps [])
       = [(''j1'', Building, Some ''r1''), (''j2'', Cancelled, None)]"
    by (simp add: exampleOps_def createJob_def updateJobStatus_def claimNextJob_def applyExtra_def
        exampleParams_def Let_def)
  then have n: "run exampleOps [] \<noteq> []" by auto
  have c: "run exampleClaimOps []
      = [(''j1'', (exampleJob ''j1'' Claimed Ios 10)\<lparr> claimedBy := Some ''r1'', updatedAt := 20 \<rparr>),
         (''j2'', exampleJob ''j2'' Queued Ios 10)]"
    by (simp add: exampleClaimOps_def createJob_def claimNextJob_def exampleParams_def
        exampleJob_def Let_def)
  then have c': "map (\<lambda>(k, j). (k, status j, claimedBy j)) (run exampleClaimOps [])
       = [(''j1'', Claimed, Some ''r1''), (''j2'', Queued, None)]"
    by (simp add: exampleJob_def)
  have l: "list_all (\<lambda>op. \<forall>t params. op \<noteq> CreateJob t ''j1'' params) exampleLaterOps"
    by (simp add: exampleLaterOps_def)
  note t = claimedBy_only_past_queued[where ops = exampleOps and now = 0 and p = Ios
      and runnerId = "[]" and runnerHostname = "[]" and js = "[]" and i = "[]"
      and newStatus = Queued and extra = None and later = "[]"]
  from t have "\<forall>(k, j) \<in> set (run exampleOps []). claimedBy j \<noteq> None \<longrightarrow> status j \<noteq> Queued"
    by (elim conjE)
  then have a: "list_all (\<lambda>(k, j). claimedBy j \<noteq> None \<longrightarrow> status j \<noteq> Queued) (run exampleOps [])"
    by (simp add: list_all_iff)
  note u = claimedBy_only_past_queued[where ops = exampleClaimOps and now = 0 and p = Ios
      and runnerId = "[]" and runnerHostname = "[]" and js = "[]" and i = "[]"
      and newStatus = Queued and extra = None and later = exampleLaterOps]
  from u have "\<forall>k j r. map_of (run exampleClaimOps []) k = Some j \<and> claimedBy j = Some r
              \<and> (\<forall>op \<in> set exampleLaterOps. \<forall>t params. op \<noteq> CreateJob t k params)
          \<longrightarrow> (\<exists>j'. map_of (run exampleLaterOps (run exampleClaimOps [])) k = Some j'
                    \<and> claimedBy j' = Some r)"
    by (elim conjE)
  from this[rule_format, of "''j1''"
      "(exampleJob ''j1'' Claimed Ios 10)\<lparr> claimedBy := Some ''r1'', updatedAt := 20 \<rparr>" "''r1''"] l
  have k: "\<exists>j'. map_of (run exampleLaterOps (run exampleClaimOps [])) ''j1'' = Some j'
             \<and> claimedBy j' = Some ''r1''"
    by (simp add: c list_all_iff)
  from n a r c' l k show ?thesis by (intro conjI)
qed

text \<open>
  Claim C8. When the clock readings of a sequence of queue operations never decrease, every
  job of the store after the sequence, hence after each operation of it, has
  \<open>createdAt \<le> updatedAt\<close>.
\<close>

theorem updatedAt_ge_createdAt:
  assumes "sorted (map clockOf ops)"
  shows "\<forall>(k, j) \<in> set (run ops []). createdAt j \<le> updatedAt j"
proof (cases ops)
  case Nil
  then show ?thesis by simp
next
  case (Cons op rest)
  show ?thesis
  proof (rule run_timestamps[where t = "clockOf op"])
    show "\<forall>(k, j) \<in> set []. createdAt j \<le> updatedAt j \<and> updatedAt j \<le> clockOf op" by simp
    show "sorted (map clockOf ops)" by (rule assms)
    show "\<forall>op' \<in> set ops. clockOf op \<le> clockOf op'" using assms Cons by auto
  qed
qed

theorem updatedAt_ge_createdAt_witness:
  "sorted (map clockOf exampleOps)
   \<and> list_all (\<lambda>(k, j). createdAt j \<le> updatedAt j) (run exampleOps [])
   \<and> map (\<lambda>(k, j). (k, createdAt j, updatedAt j)) (run exampleOps [])
       = [(''j1'', 10, 30), (''j2'', 10, 30)]"
proof -
  have s: "sorted (map clockOf exampleOps)"
    by (simp add: exampleOps_def)
  have r: "map (\<lambda>(k, j). (k, createdAt j, updatedAt j)) (run exampleOps [])
       = [(''j1'', 10, 30), (''j2'', 10, 30)]"
    by (simp add: exampleOps_def createJob_def updateJobStatus_def claimNextJob_def applyExtra_def
        exampleParams_def Let_def)
  from updatedAt_ge_createdAt[OF s]
  have "list_all (\<lambda>(k, j). createdAt j \<le> updatedAt j) (run exampleOps [])"
    by (simp add: list_all_iff)
  with s r show ?thesis by (intro conjI)
qed

section \<open>Heartbeats with an empty platform list\<close>

text \<open>
  A heartbeat whose platform list is empty is rejected with status 400, whatever its other
  fields and whatever the registry holds, and the registry is left as it was. The message
  is \<^verbatim>\<open>Missing runnerId\<close> when the runner id is missing or empty (the check made first),
  else \<^verbatim>\<open>Missing or empty platforms array\<close>.
\<close>

lemma heartbeat_empty_platforms_rejected:
  "heartbeat now \<lparr> runnerId_b = rid, hostname_b = h, platforms_b = Some [] \<rparr> rm
     = (JsonError 400 (if falsy rid then ''Missing runnerId''
                       else ''Missing or empty platforms array''), rm)"
  by (simp add: heartbeat_def falsy_def split: option.splits)

text \<open>
  Claim C6 says that a heartbeat with an empty platform list is accepted and recorded. The
  runner of the repository sends one when it shuts down, as its signal that it is going
  away. The handler does not record it: for a runner registered by an earlier heartbeat,
  the answer is 400 and the registry still holds the runner with the platforms and the
  time of that earlier heartbeat.
\<close>

theorem heartbeat_going_away_rejected:
  "heartbeat 200 \<lparr> runnerId_b = Some ''r1'', hostname_b = Some ''mac'', platforms_b = Some [] \<rparr>
       registeredRunners
     = (JsonError 400 ''Missing or empty platforms array'', registeredRunners)
   \<and> map_of registeredRunners ''r1''
       = Some \<lparr> id_runner = ''r1'', hostname = Some ''mac'', platforms = [Ios],
                lastHeartbeat = 100 \<rparr>"
  by (simp add: registeredRunners_def heartbeat_def orElse_def Let_def)

section \<open>The life of a channel\<close>

text \<open>
  Claim C7. When the client removed is the only one the channel holds, \<^verbatim>\<open>removeClient\<close>
  deletes the channel from the registry, and a broadcast to that channel afterwards
  delivers nothing and throws nothing, also where \<^verbatim>\<open>JSON.stringify\<close> would throw on the
  payload.
\<close>

theorem removeClient_last_subscriber:
  assumes "map_of chans channel = Some [(clientId, client)]"
  shows "map_of (removeClient channel clientId chans) channel = None
     \<and> channel \<notin> fst ` set (removeClient channel clientId chans)
     \<and> broadcast stringify channel event data (removeClient channel clientId chans) = Inr []"
  using assms
  by (simp add: removeClient_def broadcast_def AList.delete_conv' AList.delete_notin_dom)

theorem removeClient_last_subscriber_witness:
  "map_of exampleChannels ''job:j1'' = Some [(''c1'', exampleClient)]
   \<and> map_of (removeClient ''job:j1'' ''c1'' exampleChannels) ''job:j1'' = None
   \<and> removeClient ''job:j1'' ''c1'' exampleChannels = [(''platform:ios'', [(''c2'', exampleClient)])]
   \<and> broadcast (\<lambda>d. None) ''job:j1'' ''job:status'' () (removeClient ''job:j1'' ''c1'' exampleChannels) = Inr []
   \<and> broadcast (\<lambda>d. Some ''{}'') ''job:j1'' ''job:status'' () exampleChannels = Inr [Sent ''c1'' ''job:status'' ''{}'']"
proof -
  have h: "map_of exampleChannels ''job:j1'' = Some [(''c1'', exampleClient)]"
    by (simp add: exampleChannels_def)
  have r: "removeClient ''job:j1'' ''c1'' exampleChannels = [(''platform:ios'', [(''c2'', exampleClient)])]"
    by (simp add: removeClient_def exampleChannels_def)
  have b: "broadcast (\<lambda>d. Some ''{}'') ''job:j1'' ''job:status'' () exampleChannels = Inr [Sent ''c1'' ''job:status'' ''{}'']"
    by (simp add: broadcast_def exampleChannels_def exampleClient_def)
  from removeClient_last_subscriber[OF h, where stringify = "\<lambda>d. None" and event = "''job:status''" and data = "()"] h r b
  show ?thesis by simp
qed

section \<open>Path safety of saveArtifact\<close>

lemma example_escape:
  "safePath ''/app'' ''/data/artifacts'' ''../artifacts2/x'' = Inl PathTraversal"
proof -
  have "resolve ''/app'' [''/data/artifacts'', ''../artifacts2/x''] = ''/data/artifacts2/x''"
    by code_simp
  then show ?thesis by (simp add: safePath_def)
qed

text \<open>
  Claim C3. The storage is the one \<^verbatim>\<open>init\<close> sets up, from an absolute working directory and
  with any value of \<^verbatim>\<open>STORAGE_DIR\<close> and any files on disk. \<^verbatim>\<open>saveArtifact\<close> sanitizes the
  file name and the job id: what \<^verbatim>\<open>sanitize\<close> returns holds no null byte, no slash, no
  backslash and no \<^verbatim>\<open>..\<close>, and is its own basename. The destination is resolved under the
  artifact root and checked by \<^verbatim>\<open>safePath\<close>, which accepts it: it is the root, a slash, and
  the name made of the two sanitized parts. Whatever \<^verbatim>\<open>saveArtifact\<close> returns, this is the
  only path whose content differs afterwards, so nothing is written outside the artifact
  root. A path that resolves outside its parent makes \<^verbatim>\<open>safePath\<close> fail with the
  path-traversal error, which is none of the other errors of the module.
\<close>

theorem saveArtifact_path_safety:
  assumes "isAbsolute (cwd st0)"
    and "st = (init STORAGE_DIR st0)\<lparr> files := fs \<rparr>"
    and "saveArtifact jobId originalFilename data st = (result, st')"
  shows "CHR 0x00 \<notin> set (sanitize originalFilename) \<and> CHR ''/'' \<notin> set (sanitize originalFilename)
     \<and> CHR 0x5C \<notin> set (sanitize originalFilename) \<and> \<not> sublist ''..'' (sanitize originalFilename)
     \<and> basename (sanitize originalFilename) = sanitize originalFilename
     \<and> CHR 0x00 \<notin> set (sanitize jobId) \<and> CHR ''/'' \<notin> set (sanitize jobId)
     \<and> CHR 0x5C \<notin> set (sanitize jobId) \<and> \<not> sublist ''..'' (sanitize jobId)
     \<and> basename (sanitize jobId) = sanitize jobId
     \<and> safePath (cwd st) (artifactsDir st) (sanitize jobId @ ''-'' @ sanitize originalFilename)
         = Inr (artifactsDir st @ ''/'' @ sanitize jobId @ ''-'' @ sanitize originalFilename)
     \<and> (\<forall>dest. result = Inr dest \<longrightarrow>
            dest = artifactsDir st @ ''/'' @ sanitize jobId @ ''-'' @ sanitize originalFilename)
     \<and> (\<forall>path. files st' path \<noteq> files st path \<longrightarrow>
            path = artifactsDir st @ ''/'' @ sanitize jobId @ ''-'' @ sanitize originalFilename)
     \<and> (\<forall>parent child.
            \<not> prefix (parent @ ''/'') (resolve (cwd st) [parent, child])
              \<and> resolve (cwd st) [parent, child] \<noteq> parent
            \<longrightarrow> safePath (cwd st) parent child = Inl PathTraversal)
     \<and> PathTraversal \<noteq> NotInitialised \<and> PathTraversal \<noteq> SizeLimit n"
proof -
  have sp: "safePath (cwd st) (artifactsDir st) (sanitize jobId @ ''-'' @ sanitize originalFilename)
         = Inr (artifactsDir st @ ''/'' @ sanitize jobId @ ''-'' @ sanitize originalFilename)"
    using safePath_initialised(1)[OF assms(1), of "cwd st0" STORAGE_DIR jobId originalFilename]
    by (simp add: assms(2) init_fields)
  from assms(2,3) saveArtifact_initialised[OF assms(1), where jobId = jobId and name = originalFilename
      and data = data and d = STORAGE_DIR and fs = fs]
  have r: "(result, st') =
     (if MAX_ARTIFACT_BYTES < payloadBytes data
      then (Inl (SizeLimit MAX_ARTIFACT_BYTES),
            (init STORAGE_DIR st0)\<lparr> files := (case data of Buffer bytes \<Rightarrow> fs
                | Stream chunks \<Rightarrow> fs(artifactsDir (init STORAGE_DIR st0) @ ''/'' @ sanitize jobId @ ''-'' @ sanitize originalFilename := None)) \<rparr>)
      else (Inr (artifactsDir (init STORAGE_DIR st0) @ ''/'' @ sanitize jobId @ ''-'' @ sanitize originalFilename),
            (init STORAGE_DIR st0)\<lparr> files := fs(artifactsDir (init STORAGE_DIR st0) @ ''/'' @ sanitize jobId @ ''-'' @ sanitize originalFilename
                                        \<mapsto> payload data) \<rparr>))"
    by simp
  have d: "\<forall>dest. result = Inr dest \<longrightarrow>
            dest = artifactsDir st @ ''/'' @ sanitize jobId @ ''-'' @ sanitize originalFilename"
    using r by (auto simp: assms(2) split: if_splits)
  have f: "\<forall>path. files st' path \<noteq> files st path \<longrightarrow>
            path = artifactsDir st @ ''/'' @ sanitize jobId @ ''-'' @ sanitize originalFilename"
    using r by (cases data) (auto simp: assms(2) split: if_splits)
  have e: "\<forall>parent child.
            \<not> prefix (parent @ ''/'') (resolve (cwd st) [parent, child])
              \<and> resolve (cwd st) [parent, child] \<noteq> parent
            \<longrightarrow> safePath (cwd st) parent child = Inl PathTraversal"
    by (simp add: safePath_def)
  show ?thesis
    using sanitize_chars[of originalFilename] sanitize_chars[of jobId]
      sanitize_no_dotdot[of originalFilename] sanitize_no_dotdot[of jobId]
      basename_sanitize[of originalFilename] basename_sanitize[of jobId] sp d f e
    by (intro conjI) simp_all
qed

theorem saveArtifact_path_safety_witness:
  "isAbsolute (cwd bootStorage)
   \<and> sanitize ''../../etc/passwd'' = ''etcpasswd''
   \<and> fst (saveArtifact ''j1'' ''../../etc/passwd'' (Buffer [1, 2, 3]) exampleStorage)
       = Inr ''/data/artifacts/j1-etcpasswd''
   \<and> files (snd (saveArtifact ''j1'' ''../../etc/passwd'' (Buffer [1, 2, 3]) exampleStorage))
        ''/data/artifacts/j1-etcpasswd'' = Some [1, 2, 3]
   \<and> files (snd (saveArtifact ''j1'' ''../../etc/passwd'' (Buffer [1, 2, 3]) exampleStorage))
        ''/etc/passwd'' = None
   \<and> safePath ''/app'' ''/data/artifacts'' ''../artifacts2/x'' = Inl PathTraversal"
proof -
  let ?r = "saveArtifact ''j1'' ''../../etc/passwd'' (Buffer [1, 2, 3]) exampleStorage"
  have v: "?r = (Inr ''/data/artifacts/j1-etcpasswd'',
                 exampleStorage\<lparr> files := [''/data/artifacts/j1-etcpasswd'' \<mapsto> [1, 2, 3]] \<rparr>)"
    by (simp add: saveArtifact_def exampleStorage_fields example_sanitize example_safePath
        writeWithLimit_def MAX_ARTIFACT_BYTES_def)
  have e: "?r = (fst ?r, snd ?r)" by simp
  note t = saveArtifact_path_safety[OF bootStorage_absolute exampleStorage_def e, where n = 0]
  from t have "\<forall>path. files (snd ?r) path \<noteq> files exampleStorage path \<longrightarrow>
            path = artifactsDir exampleStorage @ ''/'' @ sanitize ''j1'' @ ''-'' @ sanitize ''../../etc/passwd''"
    by (elim conjE)
  then have "files (snd ?r) ''/etc/passwd'' = files exampleStorage ''/etc/passwd''"
    by (auto simp: exampleStorage_fields example_sanitize)
  then have n: "files (snd ?r) ''/etc/passwd'' = None"
    by (simp add: exampleStorage_fields)
  from v n bootStorage_absolute example_sanitize(3) example_escape show ?thesis
    by simp
qed


section \<open>The size limits\<close>

lemma uploadedStorage_eq:
  "uploadedStorage = exampleStorage\<lparr> files := [''/data/artifacts/j1-app.ipa'' \<mapsto> [1, 2, 3]] \<rparr>"
  by (simp add: uploadedStorage_def saveArtifact_def exampleStorage_fields example_sanitize
      example_safePath writeWithLimit_def MAX_ARTIFACT_BYTES_def)

text \<open>
  Claim C4 says that every write whose payload exceeds the limit leaves no file at the
  destination path. A second upload under the name of an artifact already stored, with a
  buffer one byte over the limit, fails with the size-limit error and the first file is
  still at the destination.
\<close>

theorem writeWithLimit_over_limit_counterexample:
  "payloadBytes (Buffer (replicate (MAX_ARTIFACT_BYTES + 1) 0)) = MAX_ARTIFACT_BYTES + 1
   \<and> fst (saveArtifact ''j1'' ''app.ipa'' (Buffer (replicate (MAX_ARTIFACT_BYTES + 1) 0)) uploadedStorage)
       = Inl (SizeLimit MAX_ARTIFACT_BYTES)
   \<and> files (snd (saveArtifact ''j1'' ''app.ipa'' (Buffer (replicate (MAX_ARTIFACT_BYTES + 1) 0))
                   uploadedStorage)) ''/data/artifacts/j1-app.ipa'' = Some [1, 2, 3]"
  by (simp add: uploadedStorage_eq saveArtifact_def exampleStorage_fields example_sanitize
      example_safePath writeWithLimit_def)

text \<open>
  Claim C4, amended. The limits are 500 MB for tarballs and 2 GB for artifacts. A write
  succeeds exactly when the payload has at most \<open>maxBytes\<close> bytes; one byte more makes it
  fail with the size-limit error. A streamed payload is counted chunk by chunk, and the
  pipeline stops at the first chunk that takes the count over the limit: when it fails,
  the file holds the chunks before that one, at most \<open>maxBytes\<close> bytes, and neither that
  chunk nor any later one has been written. The outcome does not depend on what the stream
  would yield afterwards; the partial file is then removed and no file remains at the
  destination. A buffered payload is measured before anything is written, and the file
  system is left as it was: no file is created, and a file already at the destination
  stays. The same holds for \<^verbatim>\<open>saveTarball\<close> and \<^verbatim>\<open>saveArtifact\<close> in a storage set up by
  \<^verbatim>\<open>init\<close>.
\<close>

theorem writeWithLimit_over_limit:
  assumes "isAbsolute (cwd st0)"
    and "st = (init STORAGE_DIR st0)\<lparr> files := fs \<rparr>"
  shows "MAX_TARBALL_BYTES = 500 * 1024 * 1024 \<and> MAX_ARTIFACT_BYTES = 2 * 1024 * 1024 * 1024
     \<and> writeWithLimit dest data maxBytes fs =
         (if maxBytes < payloadBytes data
          then (Inl (SizeLimit maxBytes),
                (case data of Buffer bytes \<Rightarrow> fs | Stream chunks \<Rightarrow> fs(dest := None)))
          else (Inr (), fs(dest \<mapsto> payload data)))
     \<and> (\<forall>chunks rest. maxBytes < sum_list (map length chunks) \<longrightarrow>
            writeWithLimit dest (Stream (chunks @ rest)) maxBytes fs
              = writeWithLimit dest (Stream chunks) maxBytes fs)
     \<and> (\<forall>pre chunk rest.
            sum_list (map length pre) \<le> maxBytes
            \<and> maxBytes < sum_list (map length pre) + length chunk
            \<longrightarrow> pipeline dest maxBytes 0 (pre @ chunk # rest) (fs(dest \<mapsto> []))
                  = (Inl (SizeLimit maxBytes), fs(dest \<mapsto> concat pre)))
     \<and> (MAX_TARBALL_BYTES < payloadBytes data \<longrightarrow>
            saveTarball jobId data st
              = (Inl (SizeLimit MAX_TARBALL_BYTES),
                 st\<lparr> files := (case data of Buffer bytes \<Rightarrow> fs
                       | Stream chunks \<Rightarrow> fs(tarballsDir st @ ''/'' @ sanitize jobId @ ''.tar.gz'' := None)) \<rparr>))
     \<and> (MAX_ARTIFACT_BYTES < payloadBytes data \<longrightarrow>
            saveArtifact jobId originalFilename data st
              = (Inl (SizeLimit MAX_ARTIFACT_BYTES),
                 st\<lparr> files := (case data of Buffer bytes \<Rightarrow> fs
                       | Stream chunks \<Rightarrow> fs(artifactsDir st @ ''/'' @ sanitize jobId @ ''-''
                                                 @ sanitize originalFilename := None)) \<rparr>))"
proof -
  have t: "MAX_TARBALL_BYTES < payloadBytes data \<longrightarrow>
            saveTarball jobId data st
              = (Inl (SizeLimit MAX_TARBALL_BYTES),
                 st\<lparr> files := (case data of Buffer bytes \<Rightarrow> fs
                       | Stream chunks \<Rightarrow> fs(tarballsDir st @ ''/'' @ sanitize jobId @ ''.tar.gz'' := None)) \<rparr>)"
    unfolding assms(2) saveTarball_initialised[OF assms(1)] by (cases data) simp_all
  have a: "MAX_ARTIFACT_BYTES < payloadBytes data \<longrightarrow>
            saveArtifact jobId originalFilename data st
              = (Inl (SizeLimit MAX_ARTIFACT_BYTES),
                 st\<lparr> files := (case data of Buffer bytes \<Rightarrow> fs
                       | Stream chunks \<Rightarrow> fs(artifactsDir st @ ''/'' @ sanitize jobId @ ''-''
                                                 @ sanitize originalFilename := None)) \<rparr>)"
    unfolding assms(2) saveArtifact_initialised[OF assms(1)] by (cases data) simp_all
  have i: "\<forall>chunks rest. maxBytes < sum_list (map length chunks) \<longrightarrow>
            writeWithLimit dest (Stream (chunks @ rest)) maxBytes fs
              = writeWithLimit dest (Stream chunks) maxBytes fs"
    by (simp add: writeWithLimit_incremental)
  have s: "\<forall>pre chunk rest.
            sum_list (map length pre) \<le> maxBytes
            \<and> maxBytes < sum_list (map length pre) + length chunk
            \<longrightarrow> pipeline dest maxBytes 0 (pre @ chunk # rest) (fs(dest \<mapsto> []))
                  = (Inl (SizeLimit maxBytes), fs(dest \<mapsto> concat pre))"
    using pipeline_stops[of 0 _ maxBytes _ "fs(dest \<mapsto> [])" dest "[]"] by simp
  have c: "MAX_TARBALL_BYTES = 500 * 1024 * 1024" "MAX_ARTIFACT_BYTES = 2 * 1024 * 1024 * 1024"
    by (simp_all add: MAX_TARBALL_BYTES_def MAX_ARTIFACT_BYTES_def)
  from c writeWithLimit_eq[of dest data maxBytes fs] i s t a show ?thesis
    by (intro conjI)
qed

theorem writeWithLimit_over_limit_witness:
  "isAbsolute (cwd bootStorage)
   \<and> payloadBytes (Stream [replicate MAX_TARBALL_BYTES 0, [0]]) = MAX_TARBALL_BYTES + 1
   \<and> fst (saveTarball ''j1'' (Stream [replicate MAX_TARBALL_BYTES 0, [0]]) exampleStorage)
       = Inl (SizeLimit MAX_TARBALL_BYTES)
   \<and> files (snd (saveTarball ''j1'' (Stream [replicate MAX_TARBALL_BYTES 0, [0]]) exampleStorage))
       ''/data/tarballs/j1.tar.gz'' = None
   \<and> snd (pipeline ''/data/tarballs/j1.tar.gz'' MAX_TARBALL_BYTES 0
             [replicate MAX_TARBALL_BYTES 0, [0], [1, 2]]
             [''/data/tarballs/j1.tar.gz'' \<mapsto> []]) ''/data/tarballs/j1.tar.gz''
       = Some (replicate MAX_TARBALL_BYTES 0)"
proof -
  let ?d = "Stream [replicate MAX_TARBALL_BYTES 0, [0]]"
  have p: "payloadBytes ?d = MAX_TARBALL_BYTES + 1" by simp
  then have o: "MAX_TARBALL_BYTES < payloadBytes ?d" by simp
  note t = writeWithLimit_over_limit[OF bootStorage_absolute exampleStorage_def,
      where data = "?d" and jobId = "''j1''" and dest = "''/data/tarballs/j1.tar.gz''"
      and maxBytes = MAX_TARBALL_BYTES and originalFilename = "[]"]
  from t have "MAX_TARBALL_BYTES < payloadBytes ?d \<longrightarrow>
     saveTarball ''j1'' ?d exampleStorage
     = (Inl (SizeLimit MAX_TARBALL_BYTES),
        exampleStorage\<lparr> files := (case ?d of Buffer bytes \<Rightarrow> Map.empty
            | Stream chunks \<Rightarrow> (Map.empty :: fileSystem)
                (tarballsDir exampleStorage @ ''/'' @ sanitize ''j1'' @ ''.tar.gz'' := None)) \<rparr>)"
    by (elim conjE)
  with o have "saveTarball ''j1'' ?d exampleStorage
     = (Inl (SizeLimit MAX_TARBALL_BYTES),
        exampleStorage\<lparr> files := (Map.empty :: fileSystem)
           (tarballsDir exampleStorage @ ''/'' @ sanitize ''j1'' @ ''.tar.gz'' := None) \<rparr>)"
    by simp
  then have s: "fst (saveTarball ''j1'' ?d exampleStorage) = Inl (SizeLimit MAX_TARBALL_BYTES)"
    and f: "files (snd (saveTarball ''j1'' ?d exampleStorage)) ''/data/tarballs/j1.tar.gz'' = None"
    by (simp_all add: exampleStorage_fields example_sanitize)
  from t have "\<forall>pre chunk rest.
            sum_list (map length pre) \<le> MAX_TARBALL_BYTES
            \<and> MAX_TARBALL_BYTES < sum_list (map length pre) + length chunk
            \<longrightarrow> pipeline ''/data/tarballs/j1.tar.gz'' MAX_TARBALL_BYTES 0 (pre @ chunk # rest)
                    ((Map.empty :: fileSystem)(''/data/tarballs/j1.tar.gz'' \<mapsto> []))
                  = (Inl (SizeLimit MAX_TARBALL_BYTES),
                     (Map.empty :: fileSystem)(''/data/tarballs/j1.tar.gz'' \<mapsto> concat pre))"
    by (elim conjE)
  from this[rule_format, of "[replicate MAX_TARBALL_BYTES 0]" "[0]" "[[1, 2]]"]
  have k: "snd (pipeline ''/data/tarballs/j1.tar.gz'' MAX_TARBALL_BYTES 0
             [replicate MAX_TARBALL_BYTES 0, [0], [1, 2]]
             [''/data/tarballs/j1.tar.gz'' \<mapsto> []]) ''/data/tarballs/j1.tar.gz''
       = Some (replicate MAX_TARBALL_BYTES 0)"
    by simp
  from bootStorage_absolute p s f k show ?thesis by (intro conjI)
qed

section \<open>The fallback name of sanitize\<close>

text \<open>
  Claim C10. \<^verbatim>\<open>sanitize\<close> never returns the empty string: when nothing is left after the
  three replacements, as for \<^verbatim>\<open>..\<close>, for a slash and for a string of null bytes, it returns
  \<^verbatim>\<open>file\<close>, else what is left. Its result, and the file name built from it, is its own
  basename. In a storage set up by \<^verbatim>\<open>init\<close> from an absolute working directory,
  \<^verbatim>\<open>saveTarball\<close> and \<^verbatim>\<open>saveArtifact\<close> therefore never fail on the name: they write the
  payload to the file of that name directly under their root and return its path, unless
  the payload is over the size limit.
\<close>

theorem sanitize_never_empty:
  assumes "isAbsolute (cwd st0)"
    and "st = (init STORAGE_DIR st0)\<lparr> files := fs \<rparr>"
  shows "sanitize input \<noteq> []
     \<and> sanitize input
         = (if stripDotDot (stripSeparators (stripNull input)) = [] then ''file''
            else stripDotDot (stripSeparators (stripNull input)))
     \<and> sanitize ''..'' = ''file'' \<and> sanitize ''/'' = ''file''
     \<and> sanitize (replicate n (CHR 0x00)) = ''file''
     \<and> basename (sanitize input) = sanitize input
     \<and> basename (sanitize jobId @ ''.tar.gz'') = sanitize jobId @ ''.tar.gz''
     \<and> basename (sanitize jobId @ ''-'' @ sanitize input) = sanitize jobId @ ''-'' @ sanitize input
     \<and> saveTarball jobId data st
         = (if MAX_TARBALL_BYTES < payloadBytes data
            then (Inl (SizeLimit MAX_TARBALL_BYTES),
                  st\<lparr> files := (case data of Buffer bytes \<Rightarrow> fs
                        | Stream chunks \<Rightarrow> fs(tarballsDir st @ ''/'' @ sanitize jobId @ ''.tar.gz'' := None)) \<rparr>)
            else (Inr (tarballsDir st @ ''/'' @ sanitize jobId @ ''.tar.gz''),
                  st\<lparr> files := fs(tarballsDir st @ ''/'' @ sanitize jobId @ ''.tar.gz'' \<mapsto> payload data) \<rparr>))
     \<and> saveArtifact jobId input data st
         = (if MAX_ARTIFACT_BYTES < payloadBytes data
            then (Inl (SizeLimit MAX_ARTIFACT_BYTES),
                  st\<lparr> files := (case data of Buffer bytes \<Rightarrow> fs
                        | Stream chunks \<Rightarrow> fs(artifactsDir st @ ''/'' @ sanitize jobId @ ''-''
                                                  @ sanitize input := None)) \<rparr>)
            else (Inr (artifactsDir st @ ''/'' @ sanitize jobId @ ''-'' @ sanitize input),
                  st\<lparr> files := fs(artifactsDir st @ ''/'' @ sanitize jobId @ ''-'' @ sanitize input
                                     \<mapsto> payload data) \<rparr>))"
proof -
  have e: "sanitize ''..'' = ''file''" "sanitize ''/'' = ''file''"
    by code_simp+
  have z: "sanitize (replicate n (CHR 0x00)) = ''file''"
    by (simp add: sanitize_eq stripNull_def stripSeparators_def)
  have b: "basename (sanitize jobId @ ''.tar.gz'') = sanitize jobId @ ''.tar.gz''"
          "basename (sanitize jobId @ ''-'' @ sanitize input) = sanitize jobId @ ''-'' @ sanitize input"
    using cleanSegment_filenames(1)[of jobId input] cleanSegment_filenames(2)[of jobId]
    by (simp_all add: cleanSegment_def basename_no_slash)
  have t: "saveTarball jobId data st
         = (if MAX_TARBALL_BYTES < payloadBytes data
            then (Inl (SizeLimit MAX_TARBALL_BYTES),
                  st\<lparr> files := (case data of Buffer bytes \<Rightarrow> fs
                        | Stream chunks \<Rightarrow> fs(tarballsDir st @ ''/'' @ sanitize jobId @ ''.tar.gz'' := None)) \<rparr>)
            else (Inr (tarballsDir st @ ''/'' @ sanitize jobId @ ''.tar.gz''),
                  st\<lparr> files := fs(tarballsDir st @ ''/'' @ sanitize jobId @ ''.tar.gz'' \<mapsto> payload data) \<rparr>))"
    unfolding assms(2) saveTarball_initialised[OF assms(1)] by (cases data) simp_all
  have a: "saveArtifact jobId input data st
         = (if MAX_ARTIFACT_BYTES < payloadBytes data
            then (Inl (SizeLimit MAX_ARTIFACT_BYTES),
                  st\<lparr> files := (case data of Buffer bytes \<Rightarrow> fs
                        | Stream chunks \<Rightarrow> fs(artifactsDir st @ ''/'' @ sanitize jobId @ ''-''
                                                  @ sanitize input := None)) \<rparr>)
            else (Inr (artifactsDir st @ ''/'' @ sanitize jobId @ ''-'' @ sanitize input),
                  st\<lparr> files := fs(artifactsDir st @ ''/'' @ sanitize jobId @ ''-'' @ sanitize input
                                     \<mapsto> payload data) \<rparr>))"
    unfolding assms(2) saveArtifact_initialised[OF assms(1)] by (cases data) simp_all
  from sanitize_nonempty[of input] sanitize_eq[of input] e z basename_sanitize[of input] b t a
  show ?thesis by (intro conjI)
qed

theorem sanitize_never_empty_witness:
  "isAbsolute (cwd bootStorage)
   \<and> sanitize ''..'' = ''file''
   \<and> fst (saveArtifact ''/'' ''..'' (Buffer [7]) exampleStorage) = Inr ''/data/artifacts/file-file''
   \<and> fst (saveTarball ''..'' (Buffer [7]) exampleStorage) = Inr ''/data/tarballs/file.tar.gz''"
proof -
  note t = sanitize_never_empty[OF bootStorage_absolute exampleStorage_def,
      where input = "''..''" and jobId = "''/''" and data = "Buffer [7]" and n = 0]
  note u = sanitize_never_empty[OF bootStorage_absolute exampleStorage_def,
      where input = "''..''" and jobId = "''..''" and data = "Buffer [7]" and n = 0]
  from t have s1: "sanitize ''..'' = ''file''"
    by (elim conjE)
  from t have s2: "sanitize ''/'' = ''file''"
    by (elim conjE)
  note s = s1 s2
  from t have "saveArtifact ''/'' ''..'' (Buffer [7]) exampleStorage
      = (Inr (artifactsDir exampleStorage @ ''/'' @ sanitize ''/'' @ ''-'' @ sanitize ''..''),
         exampleStorage\<lparr> files := (Map.empty :: fileSystem)
           (artifactsDir exampleStorage @ ''/'' @ sanitize ''/'' @ ''-'' @ sanitize ''..'' \<mapsto> [7]) \<rparr>)"
    by (simp add: MAX_ARTIFACT_BYTES_def)
  then have a: "fst (saveArtifact ''/'' ''..'' (Buffer [7]) exampleStorage) = Inr ''/data/artifacts/file-file''"
    by (simp add: s exampleStorage_fields)
  from u have "saveTarball ''..'' (Buffer [7]) exampleStorage
      = (Inr (tarballsDir exampleStorage @ ''/'' @ sanitize ''..'' @ ''.tar.gz''),
         exampleStorage\<lparr> files := (Map.empty :: fileSystem)
           (tarballsDir exampleStorage @ ''/'' @ sanitize ''..'' @ ''.tar.gz'' \<mapsto> [7]) \<rparr>)"
    by (simp add: MAX_TARBALL_BYTES_def)
  then have b: "fst (saveTarball ''..'' (Buffer [7]) exampleStorage) = Inr ''/data/tarballs/file.tar.gz''"
    by (simp add: s exampleStorage_fields)
  from bootStorage_absolute s(1) a b show ?thesis by (intro conjI)
qed

end
